theory Spec2Isabelle
  imports Complex_Main "HOL-Library.Monad_Syntax"
begin

section \<open>Messages and participant records\<close>

text \<open>
  A parsed message (parser.js, typedef Message). The \<open>Date\<close> held in \<open>timestamp\<close> is
  represented by its millisecond count on the local clock: the zone offset is taken as
  fixed, so differences of two timestamps equal the differences of \<open>getTime()\<close>, and
  the calendar getters read the value directly. Text is a HOL string; on ASCII text
  \<open>length\<close> is the \<open>.length\<close> of the source.
\<close>

record message =
  timestamp :: int
  participant :: string
  content :: string
  isSystem :: bool
  isMedia :: bool

text \<open>
  dataModel.js, class \<open>ParticipantData\<close>. The emoji histogram \<open>topEmojis\<close> is an
  insertion-ordered \<open>Map\<close>, kept as an association list.
\<close>

record ParticipantData =
  name :: string
  messageCount :: nat
  wordCount :: nat
  letterCount :: nat
  emojiCount :: nat
  topEmojis :: "(string \<times> nat) list"
  responseTimes :: "int list"
  conversationsStarted :: nat
  messages :: "message list"
  messageLengths :: "nat list"
  characterLengths :: "nat list"
  questionCount :: nat
  exclamationCount :: nat
  allCapsCount :: nat
  burstCount :: nat

definition newParticipantData :: "string \<Rightarrow> ParticipantData" where
  "newParticipantData n =
     \<lparr>name = n, messageCount = 0, wordCount = 0, letterCount = 0, emojiCount = 0,
      topEmojis = [], responseTimes = [], conversationsStarted = 0, messages = [],
      messageLengths = [], characterLengths = [], questionCount = 0,
      exclamationCount = 0, allCapsCount = 0, burstCount = 0\<rparr>"

text \<open>
  \<open>ChatData.participants\<close> is a \<open>Map\<close> from display name to record. It is kept in
  insertion order, which is the order \<open>getAllParticipants\<close> returns.
\<close>

type_synonym participants = "(string \<times> ParticipantData) list"

definition getParticipant :: "participants \<Rightarrow> string \<Rightarrow> ParticipantData option" where
  "getParticipant ps n = map_of ps n"

definition getAllParticipants :: "participants \<Rightarrow> ParticipantData list" where
  "getAllParticipants ps = map snd ps"

text \<open>In-place mutation of the record stored under a name (no effect when absent).\<close>

fun modifyParticipant ::
  "string \<Rightarrow> (ParticipantData \<Rightarrow> ParticipantData) \<Rightarrow> participants \<Rightarrow> participants" where
  "modifyParticipant n f [] = []"
| "modifyParticipant n f ((k, v) # ps) =
     (if k = n then (k, f v) # ps else (k, v) # modifyParticipant n f ps)"

definition addResponseTime :: "int \<Rightarrow> ParticipantData \<Rightarrow> ParticipantData" where
  "addResponseTime milliseconds p = p\<lparr>responseTimes := responseTimes p @ [milliseconds]\<rparr>"

section \<open>Time-gap predicates (utils.js)\<close>

definition isNewConversation :: "int \<Rightarrow> bool" where
  "isNewConversation milliseconds = (milliseconds > 2 * 60 * 60 * 1000)"

definition isValidResponseTime :: "int \<Rightarrow> bool" where
  "isValidResponseTime milliseconds = (milliseconds < 24 * 60 * 60 * 1000)"

text \<open>
  \<open>[...messages].sort((a, b) => a.timestamp.getTime() - b.timestamp.getTime())\<close>:
  a stable sort by timestamp of a copy.
\<close>

definition sortByTimestamp :: "message list \<Rightarrow> message list" where
  "sortByTimestamp ms = sort_key timestamp ms"

section \<open>Response-time attribution (statistics.js, calculateResponseTimes)\<close>

text \<open>
  The inner loop over \<open>j\<close>: the first later message of another participant decides;
  its delta is kept when \<open>isValidResponseTime\<close> holds, and the scan stops there
  either way.
\<close>

fun findResponse :: "message \<Rightarrow> message list \<Rightarrow> (string \<times> int) option" where
  "findResponse currentMsg [] = None"
| "findResponse currentMsg (nextMsg # rest) =
     (if participant nextMsg \<noteq> participant currentMsg then
        (let timeDiff = timestamp nextMsg - timestamp currentMsg in
         if isValidResponseTime timeDiff then Some (participant nextMsg, timeDiff) else None)
      else findResponse currentMsg rest)"

text \<open>The outer loop over \<open>i\<close>, threading the participant map.\<close>

fun responseLoop :: "message list \<Rightarrow> participants \<Rightarrow> participants" where
  "responseLoop [] ps = ps"
| "responseLoop (currentMsg # rest) ps =
     (case findResponse currentMsg rest of
        None \<Rightarrow> responseLoop rest ps
      | Some (responder, timeDiff) \<Rightarrow>
          responseLoop rest (modifyParticipant responder (addResponseTime timeDiff) ps))"

definition calculateResponseTimes :: "message list \<Rightarrow> participants \<Rightarrow> participants" where
  "calculateResponseTimes ms ps = responseLoop (sortByTimestamp ms) ps"

text \<open>The samples the loop hands to \<open>addResponseTime\<close>, in order, with their receiver.\<close>

fun responseSamples :: "message list \<Rightarrow> (string \<times> int) list" where
  "responseSamples [] = []"
| "responseSamples (currentMsg # rest) =
     (case findResponse currentMsg rest of
        None \<Rightarrow> responseSamples rest
      | Some s \<Rightarrow> s # responseSamples rest)"

text \<open>
  What the claim calls the response to message \<open>i\<close>: \<open>j\<close> is the first later index
  whose participant differs from that of \<open>i\<close>.
\<close>

definition firstOtherAfter :: "message list \<Rightarrow> nat \<Rightarrow> nat \<Rightarrow> bool" where
  "firstOtherAfter xs i j \<longleftrightarrow>
     i < j \<and> j < length xs \<and> participant (xs ! j) \<noteq> participant (xs ! i) \<and>
     (\<forall>k. i < k \<and> k < j \<longrightarrow> participant (xs ! k) = participant (xs ! i))"

text \<open>The two-line transcript of the end-to-end example, already parsed.\<close>

definition exampleAlice :: message where
  "exampleAlice = \<lparr>timestamp = 0, participant = ''Alice'', content = ''Hello'',
     isSystem = False, isMedia = False\<rparr>"

definition exampleBob :: message where
  "exampleBob = \<lparr>timestamp = 300000, participant = ''Bob'', content = ''Hi Alice'',
     isSystem = False, isMedia = False\<rparr>"

definition exampleParticipants :: participants where
  "exampleParticipants =
     [(''Alice'', newParticipantData ''Alice''), (''Bob'', newParticipantData ''Bob'')]"

section \<open>Calendar getters of a timestamp\<close>

text \<open>
  \<open>getHours()\<close> and \<open>getDay()\<close> of a \<open>Date\<close>, read off the local millisecond
  count; day 0 of the count (1 January 1970) is a Thursday, \<open>getDay() = 4\<close>.
\<close>

definition msPerDay :: int where
  "msPerDay = 1000 * 60 * 60 * 24"

definition getHours :: "int \<Rightarrow> nat" where
  "getHours t = nat ((t div (1000 * 60 * 60)) mod 24)"

definition getDay :: "int \<Rightarrow> nat" where
  "getDay t = nat ((t div msPerDay + 4) mod 7)"

section \<open>Conversation starters (statistics.js, calculateConversationStarters)\<close>

definition startConversation :: "ParticipantData \<Rightarrow> ParticipantData" where
  "startConversation p = p\<lparr>conversationsStarted := conversationsStarted p + 1\<rparr>"

text \<open>The loop from \<open>i = 1\<close>; \<open>previousMsg\<close> is \<open>sortedMessages[i - 1]\<close>.\<close>

fun startersLoop :: "message \<Rightarrow> message list \<Rightarrow> participants \<Rightarrow> participants" where
  "startersLoop previousMsg [] ps = ps"
| "startersLoop previousMsg (currentMsg # rest) ps =
     (let timeDiff = timestamp currentMsg - timestamp previousMsg in
      startersLoop currentMsg rest
        (if isNewConversation timeDiff
         then modifyParticipant (participant currentMsg) startConversation ps
         else ps))"

definition calculateConversationStarters :: "message list \<Rightarrow> participants \<Rightarrow> participants" where
  "calculateConversationStarters ms ps =
     (case sortByTimestamp ms of
        [] \<Rightarrow> ps
      | first # rest \<Rightarrow>
          startersLoop first rest (modifyParticipant (participant first) startConversation ps))"

text \<open>
  The decision the loop takes at each position of the sorted sequence: is this message
  counted as starting a conversation? Position 0 always is.
\<close>

fun starterFlagsFrom :: "message \<Rightarrow> message list \<Rightarrow> bool list" where
  "starterFlagsFrom previousMsg [] = []"
| "starterFlagsFrom previousMsg (currentMsg # rest) =
     isNewConversation (timestamp currentMsg - timestamp previousMsg)
       # starterFlagsFrom currentMsg rest"

fun starterFlags :: "message list \<Rightarrow> bool list" where
  "starterFlags [] = []"
| "starterFlags (first # rest) = True # starterFlagsFrom first rest"

text \<open>The elements of a sequence whose flag is set, in order.\<close>

definition flagged :: "'a list \<Rightarrow> bool list \<Rightarrow> 'a list" where
  "flagged xs fs = map fst (filter snd (zip xs fs))"

section \<open>Conversation lengths (statistics.js, analyzeConversationLengths)\<close>

text \<open>
  The \<open>forEach\<close> that partitions the sorted messages; the state is \<open>conversations\<close>,
  \<open>currentConvo\<close> and \<open>lastTimestamp\<close> (\<open>None\<close> for \<open>null\<close>; a \<open>Date\<close> object is
  always truthy).
\<close>

fun convoLoop ::
  "message list \<Rightarrow> message list list \<Rightarrow> message list \<Rightarrow> int option \<Rightarrow>
   message list list \<times> message list" where
  "convoLoop [] conversations currentConvo lastTimestamp = (conversations, currentConvo)"
| "convoLoop (msg # rest) conversations currentConvo lastTimestamp =
     (if (case lastTimestamp of None \<Rightarrow> False
          | Some t \<Rightarrow> \<not> isNewConversation (timestamp msg - t))
      then convoLoop rest conversations (currentConvo @ [msg]) (Some (timestamp msg))
      else convoLoop rest
             (if length currentConvo > 0 then conversations @ [currentConvo] else conversations)
             [msg] (Some (timestamp msg)))"

definition splitConversations :: "message list \<Rightarrow> message list list" where
  "splitConversations sortedMessages =
     (case convoLoop sortedMessages [] [] None of
        (conversations, currentConvo) \<Rightarrow>
          if length currentConvo > 0 then conversations @ [currentConvo] else conversations)"

text \<open>Turns of one conversation: consecutive messages of one participant are one turn.\<close>

fun turnsLoop :: "message list \<Rightarrow> nat \<Rightarrow> string option \<Rightarrow> nat" where
  "turnsLoop [] turns lastParticipant = turns"
| "turnsLoop (msg # rest) turns lastParticipant =
     (if Some (participant msg) \<noteq> lastParticipant
      then turnsLoop rest (turns + 1) (Some (participant msg))
      else turnsLoop rest turns lastParticipant)"

record conversationLengths =
  lengths :: "nat list"
  short :: nat
  medium :: nat
  long :: nat
  average :: rat
  total :: nat
  longest :: nat

definition analyzeConversationLengths :: "message list \<Rightarrow> conversationLengths" where
  "analyzeConversationLengths ms =
     (let conversations = splitConversations (sortByTimestamp ms);
          conversationLengths = map (\<lambda>convo. turnsLoop convo 0 None) conversations
      in \<lparr>lengths = conversationLengths,
          short = length (filter (\<lambda>l. l \<le> 5) conversationLengths),
          medium = length (filter (\<lambda>l. l > 5 \<and> l \<le> 15) conversationLengths),
          long = length (filter (\<lambda>l. l > 15) conversationLengths),
          average = (if length conversationLengths > 0
                     then of_nat (foldl (+) 0 conversationLengths)
                          / of_nat (length conversationLengths)
                     else 0),
          total = length conversations,
          longest = (if length conversationLengths > 0
                     then foldl max 0 conversationLengths else 0)\<rparr>)"

text \<open>
  The decision of the partition at each position: a message is classified as a
  boundary when it is the first message of its conversation.
\<close>

definition conversationFlags :: "message list list \<Rightarrow> bool list" where
  "conversationFlags conversations =
     concat (map (\<lambda>convo. case convo of [] \<Rightarrow> [] | m # rest \<Rightarrow> True # map (\<lambda>_. False) rest)
                 conversations)"

section \<open>Initiator patterns (statistics.js, getConversationInitiatorPatterns)\<close>

record initiatorPattern =
  byHour :: "nat list"
  byDay :: "nat list"

type_synonym patterns = "(string \<times> initiatorPattern) list"

text \<open>\<open>Map.prototype.set\<close> on an insertion-ordered association list.\<close>

fun mapSet :: "'k \<Rightarrow> 'v \<Rightarrow> ('k \<times> 'v) list \<Rightarrow> ('k \<times> 'v) list" where
  "mapSet k v [] = [(k, v)]"
| "mapSet k v ((k', v') # m) = (if k' = k then (k, v) # m else (k', v') # mapSet k v m)"

definition initialPatterns :: "participants \<Rightarrow> patterns" where
  "initialPatterns ps =
     foldl (\<lambda>patterns p. mapSet (name p) \<lparr>byHour = replicate 24 0, byDay = replicate 7 0\<rparr> patterns)
       [] (getAllParticipants ps)"

definition increment :: "nat list \<Rightarrow> nat \<Rightarrow> nat list" where
  "increment counts i = counts[i := counts ! i + 1]"

text \<open>The body of the \<open>if\<close>: count the starter under its hour and weekday.\<close>

fun recordInitiator :: "message \<Rightarrow> patterns \<Rightarrow> patterns" where
  "recordInitiator msg [] = []"
| "recordInitiator msg ((k, pattern) # patterns) =
     (if k = participant msg
      then (k, \<lparr>byHour = increment (byHour pattern) (getHours (timestamp msg)),
                byDay = increment (byDay pattern) (getDay (timestamp msg))\<rparr>) # patterns
      else (k, pattern) # recordInitiator msg patterns)"

fun initiatorLoop :: "message list \<Rightarrow> int option \<Rightarrow> patterns \<Rightarrow> patterns" where
  "initiatorLoop [] lastTimestamp patterns = patterns"
| "initiatorLoop (msg # rest) lastTimestamp patterns =
     initiatorLoop rest (Some (timestamp msg))
       (if (case lastTimestamp of None \<Rightarrow> True
            | Some t \<Rightarrow> isNewConversation (timestamp msg - t))
        then recordInitiator msg patterns else patterns)"

definition getConversationInitiatorPatterns :: "message list \<Rightarrow> participants \<Rightarrow> patterns" where
  "getConversationInitiatorPatterns ms ps =
     initiatorLoop (sortByTimestamp ms) None (initialPatterns ps)"

text \<open>The decision this loop takes at each position.\<close>

fun initiatorFlags :: "message list \<Rightarrow> int option \<Rightarrow> bool list" where
  "initiatorFlags [] lastTimestamp = []"
| "initiatorFlags (msg # rest) lastTimestamp =
     (case lastTimestamp of None \<Rightarrow> True
      | Some t \<Rightarrow> isNewConversation (timestamp msg - t))
       # initiatorFlags rest (Some (timestamp msg))"

text \<open>The gap in front of position \<open>i\<close> of a sequence.\<close>

definition gapBefore :: "message list \<Rightarrow> nat \<Rightarrow> int" where
  "gapBefore xs i = timestamp (xs ! i) - timestamp (xs ! (i - 1))"

text \<open>
  The conversation boundary as the specification words it: the first message starts a
  conversation, and so does every message whose gap from the immediately preceding
  message exceeds two hours.
\<close>

definition conversationBoundary :: "message list \<Rightarrow> nat \<Rightarrow> bool" where
  "conversationBoundary xs i \<longleftrightarrow> i = 0 \<or> gapBefore xs i > 2 * 60 * 60 * 1000"

definition boundaryFlags :: "message list \<Rightarrow> bool list" where
  "boundaryFlags xs = map (conversationBoundary xs) [0..<length xs]"

text \<open>Three messages: a gap of exactly two hours, then one of two hours and a millisecond.\<close>

definition exampleGaps :: "message list" where
  "exampleGaps =
     [\<lparr>timestamp = 0, participant = ''Alice'', content = ''a'', isSystem = False, isMedia = False\<rparr>,
      \<lparr>timestamp = 7200000, participant = ''Bob'', content = ''b'', isSystem = False, isMedia = False\<rparr>,
      \<lparr>timestamp = 14400001, participant = ''Bob'', content = ''c'', isSystem = False, isMedia = False\<rparr>]"

section \<open>Text helpers (utils.js)\<close>

text \<open>
  The character classes of the regular expressions, on ASCII text: \<open>\s\<close> (space, tab,
  line feed, vertical tab, form feed, carriage return), \<open>[a-zA-Z]\<close> and \<open>[A-Z]\<close>.
\<close>

definition isSpace :: "char \<Rightarrow> bool" where
  "isSpace c \<longleftrightarrow> c \<in> set [CHR '' '', CHR 0x09, CHR 0x0A, CHR 0x0B, CHR 0x0C, CHR 0x0D]"

definition isUpper :: "char \<Rightarrow> bool" where
  "isUpper c \<longleftrightarrow> c \<in> set ''ABCDEFGHIJKLMNOPQRSTUVWXYZ''"

definition isLower :: "char \<Rightarrow> bool" where
  "isLower c \<longleftrightarrow> c \<in> set ''abcdefghijklmnopqrstuvwxyz''"

definition isAlpha :: "char \<Rightarrow> bool" where
  "isAlpha c \<longleftrightarrow> isUpper c \<or> isLower c"

text \<open>
  \<open>text.trim().split(/\s+/).filter(word => word.length > 0)\<close>: the maximal runs of
  non-whitespace characters, left to right; \<open>cur\<close> is the run being read.
\<close>

fun splitWords :: "string \<Rightarrow> string \<Rightarrow> string list" where
  "splitWords [] cur = (if cur = [] then [] else [cur])"
| "splitWords (c # cs) cur =
     (if isSpace c then (if cur = [] then splitWords cs [] else cur # splitWords cs [])
      else splitWords cs (cur @ [c]))"

definition countWords :: "string \<Rightarrow> nat" where
  "countWords text = (if text = [] then 0 else length (splitWords text []))"

definition countLetters :: "string \<Rightarrow> nat" where
  "countLetters text = (if text = [] then 0 else length (filter isAlpha text))"

text \<open>
  \<open>extractEmojis\<close> matches the Unicode property classes \<open>Emoji_Presentation\<close> and
  \<open>Extended_Pictographic\<close>, tables of the JavaScript engine. The match of that regular
  expression is the parameter \<open>emojiMatch\<close>.
\<close>

definition extractEmojis :: "(string \<Rightarrow> string list) \<Rightarrow> string \<Rightarrow> string list" where
  "extractEmojis emojiMatch text = (if text = [] then [] else emojiMatch text)"

section \<open>Adding a message to a participant record (dataModel.js, addMessage)\<close>

definition countEmoji :: "ParticipantData \<Rightarrow> string \<Rightarrow> ParticipantData" where
  "countEmoji p emoji =
     (let count = (case map_of (topEmojis p) emoji of None \<Rightarrow> 0 | Some c \<Rightarrow> c)
      in p\<lparr>topEmojis := mapSet emoji (count + 1) (topEmojis p)\<rparr>)"

definition addMessage ::
  "(string \<Rightarrow> string list) \<Rightarrow> message \<Rightarrow> ParticipantData \<Rightarrow> ParticipantData" where
  "addMessage emojiMatch message p =
     (let p1 = p\<lparr>messageCount := messageCount p + 1, messages := messages p @ [message]\<rparr>
      in if content message \<noteq> [] \<and> \<not> isMedia message then
        (let words = countWords (content message);
             letters = countLetters (content message);
             p2 = p1\<lparr>wordCount := wordCount p1 + words,
                      letterCount := letterCount p1 + letters,
                      messageLengths := messageLengths p1 @ [words],
                      characterLengths := characterLengths p1 @ [length (content message)]\<rparr>;
             p3 = (if CHR ''?'' \<in> set (content message)
                   then p2\<lparr>questionCount := questionCount p2 + 1\<rparr> else p2);
             p4 = (if CHR ''!'' \<in> set (content message)
                   then p3\<lparr>exclamationCount := exclamationCount p3 + 1\<rparr> else p3);
             alphaChars = filter isAlpha (content message);
             p5 = (if length alphaChars \<ge> 5 then
                     (let uppercaseRatio =
                            (of_nat (length (filter isUpper alphaChars)) :: rat)
                              / of_nat (length alphaChars)
                      in if uppercaseRatio > 7 / 10
                         then p4\<lparr>allCapsCount := allCapsCount p4 + 1\<rparr> else p4)
                   else p4);
             emojis = extractEmojis emojiMatch (content message);
             p6 = p5\<lparr>emojiCount := emojiCount p5 + length emojis\<rparr>
         in foldl countEmoji p6 emojis)
      else p1)"

text \<open>A media-only message, as the tokenizer tags it.\<close>

definition exampleMedia :: message where
  "exampleMedia = \<lparr>timestamp = 0, participant = ''Alice'', content = ''<Media omitted>'',
     isSystem = False, isMedia = True\<rparr>"

section \<open>JavaScript numbers\<close>

text \<open>
  The analyzers that divide work on JavaScript numbers, where a division by zero yields
  \<open>Infinity\<close> or \<open>NaN\<close> instead of failing. A number is a finite value, one of the two
  infinities, or \<open>NaN\<close>; the operations follow IEEE 754 on these four kinds. Finite
  values are exact rationals (rounding to 53 bits is not represented), and the two
  zeros are one value, read as \<open>+0\<close> when it divides.
\<close>

datatype jsnum = Fin rat | PosInf | NegInf | NaN


fun jneg :: "jsnum \<Rightarrow> jsnum" where
  "jneg (Fin x) = Fin (- x)"
| "jneg PosInf = NegInf"
| "jneg NegInf = PosInf"
| "jneg NaN = NaN"

fun jadd :: "jsnum \<Rightarrow> jsnum \<Rightarrow> jsnum" where
  "jadd (Fin a) (Fin b) = Fin (a + b)"
| "jadd (Fin a) PosInf = PosInf"
| "jadd (Fin a) NegInf = NegInf"
| "jadd PosInf (Fin b) = PosInf"
| "jadd NegInf (Fin b) = NegInf"
| "jadd PosInf PosInf = PosInf"
| "jadd NegInf NegInf = NegInf"
| "jadd PosInf NegInf = NaN"
| "jadd NegInf PosInf = NaN"
| "jadd NaN b = NaN"
| "jadd a NaN = NaN"

definition jsub :: "jsnum \<Rightarrow> jsnum \<Rightarrow> jsnum" where
  "jsub a b = jadd a (jneg b)"

text \<open>The sign of a number that is not \<open>NaN\<close>; zero counts as positive when it divides.\<close>

fun isNegative :: "jsnum \<Rightarrow> bool" where
  "isNegative (Fin x) = (x < 0)"
| "isNegative NegInf = True"
| "isNegative _ = False"

definition signedInf :: "bool \<Rightarrow> jsnum" where
  "signedInf negative = (if negative then NegInf else PosInf)"

fun jmul :: "jsnum \<Rightarrow> jsnum \<Rightarrow> jsnum" where
  "jmul (Fin a) (Fin b) = Fin (a * b)"
| "jmul NaN b = NaN"
| "jmul a NaN = NaN"
| "jmul (Fin a) b = (if a = 0 then NaN else signedInf (isNegative (Fin a) \<noteq> isNegative b))"
| "jmul a (Fin b) = (if b = 0 then NaN else signedInf (isNegative a \<noteq> isNegative (Fin b)))"
| "jmul a b = signedInf (isNegative a \<noteq> isNegative b)"

fun jdiv :: "jsnum \<Rightarrow> jsnum \<Rightarrow> jsnum" where
  "jdiv (Fin a) (Fin b) =
     (if b \<noteq> 0 then Fin (a / b)
      else if a = 0 then NaN
      else signedInf (a < 0))"
| "jdiv NaN b = NaN"
| "jdiv a NaN = NaN"
| "jdiv (Fin a) b = Fin 0"
| "jdiv a (Fin b) = signedInf (isNegative a \<noteq> (b < 0))"
| "jdiv a b = NaN"

text \<open>Comparisons: every comparison with \<open>NaN\<close> is false.\<close>

fun jlt :: "jsnum \<Rightarrow> jsnum \<Rightarrow> bool" where
  "jlt NaN b = False"
| "jlt a NaN = False"
| "jlt (Fin a) (Fin b) = (a < b)"
| "jlt PosInf b = False"
| "jlt a PosInf = True"
| "jlt NegInf b = (b \<noteq> NegInf)"
| "jlt a NegInf = False"

definition jgt :: "jsnum \<Rightarrow> jsnum \<Rightarrow> bool" where
  "jgt a b = jlt b a"



fun jmin :: "jsnum \<Rightarrow> jsnum \<Rightarrow> jsnum" where
  "jmin NaN b = NaN"
| "jmin a NaN = NaN"
| "jmin a b = (if jlt b a then b else a)"




definition ofNat :: "nat \<Rightarrow> jsnum" where
  "ofNat n = Fin (of_nat n)"

definition ofInt :: "int \<Rightarrow> jsnum" where
  "ofInt n = Fin (of_int n)"

section \<open>Relationship health (statistics.js, calculateRelationshipHealth)\<close>














section \<open>Activity trend (statistics.js, analyzeActivityTrend)\<close>

record periodSummary =
  periodMessages :: nat
  periodDays :: int
  avgPerDay :: jsnum
  startDate :: int
  endDate :: int

record activityTrend =
  trend :: string
  percentageChange :: jsnum
  comparison :: "(periodSummary \<times> periodSummary) option"

text \<open>
  \<open>Math.ceil((b - a) / (1000 * 60 * 60 * 24))\<close> for two dates. The quotient of two
  integers by a positive constant is finite, so the result is an integer; where it is
  \<open>-0\<close> in the source it is \<open>0\<close> here. That case needs \<open>b < a\<close>, and then the
  message count divided by it is zero as well, so the quotient is \<open>NaN\<close> in both.
\<close>

definition daysBetween :: "int \<Rightarrow> int \<Rightarrow> int" where
  "daysBetween a b = \<lceil>(of_int (b - a) :: rat) / of_int msPerDay\<rceil>"

definition analyzeActivityTrend :: "message list \<Rightarrow> activityTrend" where
  "analyzeActivityTrend ms =
     (if length ms = 0 then \<lparr>trend = ''neutral'', percentageChange = Fin 0, comparison = None\<rparr>
      else
        (let sortedMessages = sortByTimestamp ms;
             firstDate = timestamp (hd sortedMessages);
             lastDate = timestamp (last sortedMessages);
             totalDays = daysBetween firstDate lastDate;
             midPoint = firstDate + \<lfloor>(of_int totalDays :: rat) / 2 * 24 * 60 * 60 * 1000\<rfloor>;
             firstPeriodEnd = (if totalDays < 60 then midPoint
                               else firstDate + 30 * 24 * 60 * 60 * 1000);
             secondPeriodStart = (if totalDays < 60 then midPoint
                                  else lastDate - 30 * 24 * 60 * 60 * 1000);
             firstPeriodMessages =
               length (filter (\<lambda>m. timestamp m \<ge> firstDate \<and> timestamp m \<le> firstPeriodEnd)
                         sortedMessages);
             secondPeriodMessages =
               length (filter (\<lambda>m. timestamp m \<ge> secondPeriodStart \<and> timestamp m \<le> lastDate)
                         sortedMessages);
             firstPeriodDays = daysBetween firstDate firstPeriodEnd;
             secondPeriodDays = daysBetween secondPeriodStart lastDate;
             firstPeriodAvg = jdiv (ofNat firstPeriodMessages) (ofInt firstPeriodDays);
             secondPeriodAvg = jdiv (ofNat secondPeriodMessages) (ofInt secondPeriodDays);
             percentageChange =
               jmul (jdiv (jsub secondPeriodAvg firstPeriodAvg) firstPeriodAvg) (Fin 100);
             trend = (if jgt percentageChange (Fin 10) then ''increasing''
                      else if jlt percentageChange (Fin (- 10)) then ''decreasing''
                      else ''stable'')
         in \<lparr>trend = trend, percentageChange = percentageChange,
             comparison = Some
               (\<lparr>periodMessages = firstPeriodMessages, periodDays = firstPeriodDays,
                 avgPerDay = firstPeriodAvg, startDate = firstDate, endDate = firstPeriodEnd\<rparr>,
                \<lparr>periodMessages = secondPeriodMessages, periodDays = secondPeriodDays,
                 avgPerDay = secondPeriodAvg, startDate = secondPeriodStart,
                 endDate = lastDate\<rparr>)\<rparr>))"

text \<open>Two messages an hour apart.\<close>

definition exampleHourApart :: "message list" where
  "exampleHourApart =
     [\<lparr>timestamp = 0, participant = ''Alice'', content = ''Hello'', isSystem = False, isMedia = False\<rparr>,
      \<lparr>timestamp = 3600000, participant = ''Bob'', content = ''Hi'', isSystem = False, isMedia = False\<rparr>]"

section \<open>Constructing dates\<close>

text \<open>
  \<open>new Date(year, month, day, hours, minutes, seconds)\<close> after ECMAScript's
  \<open>MakeDay\<close>, \<open>MakeTime\<close> and \<open>MakeDate\<close>: the month is zero-based and may overflow
  into the years, the day and the time fields are added as they are, and a year from 0
  to 99 means 1900 plus that year. The result is the millisecond count on the local
  clock.
\<close>

definition dayFromYear :: "int \<Rightarrow> int" where
  "dayFromYear y =
     365 * (y - 1970) + (y - 1969) div 4 - (y - 1901) div 100 + (y - 1601) div 400"

definition isLeapYear :: "int \<Rightarrow> bool" where
  "isLeapYear y \<longleftrightarrow> y mod 4 = 0 \<and> (y mod 100 \<noteq> 0 \<or> y mod 400 = 0)"

definition daysBeforeMonth :: "int \<Rightarrow> bool \<Rightarrow> int" where
  "daysBeforeMonth m leap =
     [0, 31, 59, 90, 120, 151, 181, 212, 243, 273, 304, 334] ! nat m
       + (if leap \<and> m \<ge> 2 then 1 else 0)"

definition newDate :: "int \<Rightarrow> int \<Rightarrow> int \<Rightarrow> int \<Rightarrow> int \<Rightarrow> int \<Rightarrow> int" where
  "newDate year month day hours minutes seconds =
     (let yr = (if 0 \<le> year \<and> year \<le> 99 then 1900 + year else year);
          ym = yr + month div 12;
          mn = month mod 12;
          dayNumber = dayFromYear ym + daysBeforeMonth mn (isLeapYear ym) + day - 1
      in dayNumber * msPerDay + hours * 3600000 + minutes * 60000 + seconds * 1000)"

section \<open>Streaks (statistics.js, calculateStreaks)\<close>






definition daysDiff :: "int \<Rightarrow> int \<Rightarrow> int" where
  "daysDiff prevDate currDate = (currDate - prevDate) div msPerDay"




text \<open>
  The maximal runs of consecutive calendar days of a sequence of dates, as the
  specification words them: a run goes on while the next date is one day after the
  last one, and a new run starts otherwise.
\<close>

fun runsFrom :: "int list \<Rightarrow> int list \<Rightarrow> int list list" where
  "runsFrom run [] = [run]"
| "runsFrom run (d # rest) =
     (if daysDiff (last run) d = 1 then runsFrom (run @ [d]) rest
      else run # runsFrom [d] rest)"






section \<open>String operations of the parser\<close>

text \<open>
  Strings hold UTF-8 bytes. The operations are exact on ASCII text; of the characters
  beyond ASCII only those that the source names (U+200B to U+200F, U+FEFF) are
  recognised, by their byte sequences. \<open>toLowerCase\<close> and \<open>toUpperCase\<close> map the
  ASCII letters.
\<close>

definition isDigit :: "char \<Rightarrow> bool" where
  "isDigit c \<longleftrightarrow> c \<in> set ''0123456789''"

definition digitVal :: "char \<Rightarrow> nat" where
  "digitVal c =
     (case map_of (zip ''0123456789'' [0, 1, 2, 3, 4, 5, 6, 7, 8, 9]) c of
        Some v \<Rightarrow> v | None \<Rightarrow> 0)"

definition toLowerChar :: "char \<Rightarrow> char" where
  "toLowerChar c =
     (case map_of (zip ''ABCDEFGHIJKLMNOPQRSTUVWXYZ'' ''abcdefghijklmnopqrstuvwxyz'') c of
        Some l \<Rightarrow> l | None \<Rightarrow> c)"

definition toUpperChar :: "char \<Rightarrow> char" where
  "toUpperChar c =
     (case map_of (zip ''abcdefghijklmnopqrstuvwxyz'' ''ABCDEFGHIJKLMNOPQRSTUVWXYZ'') c of
        Some u \<Rightarrow> u | None \<Rightarrow> c)"

definition toLowerCase :: "string \<Rightarrow> string" where
  "toLowerCase s = map toLowerChar s"

definition toUpperCase :: "string \<Rightarrow> string" where
  "toUpperCase s = map toUpperChar s"

text \<open>\<open>String.prototype.trim\<close>.\<close>

definition trim :: "string \<Rightarrow> string" where
  "trim s = rev (dropWhile isSpace (rev (dropWhile isSpace s)))"

text \<open>\<open>s.includes(pattern)\<close>: \<open>pattern\<close> occurs as a contiguous substring.\<close>

definition startsWith :: "string \<Rightarrow> string \<Rightarrow> bool" where
  "startsWith s pattern \<longleftrightarrow> take (length pattern) s = pattern"

fun strIncludes :: "string \<Rightarrow> string \<Rightarrow> bool" where
  "strIncludes [] pattern = (pattern = [])"
| "strIncludes (c # cs) pattern = (startsWith (c # cs) pattern \<or> strIncludes cs pattern)"

text \<open>
  \<open>s.split(separator)\<close> for a one-character separator. The result is never empty, so
  the first case of the \<open>case\<close> does not arise.
\<close>

fun splitOn :: "char \<Rightarrow> string \<Rightarrow> string list" where
  "splitOn sep [] = [[]]"
| "splitOn sep (c # cs) =
     (if c = sep then [] # splitOn sep cs
      else (case splitOn sep cs of
              [] \<Rightarrow> [[c]]
            | piece # pieces \<Rightarrow> (c # piece) # pieces))"

text \<open>
  \<open>parseInt(s, 10)\<close>: leading whitespace, an optional sign, then the longest run of
  digits; \<open>None\<close> is \<open>NaN\<close>, the result when there is no digit.
\<close>

definition decimalValue :: "string \<Rightarrow> nat" where
  "decimalValue ds = foldl (\<lambda>acc c. 10 * acc + digitVal c) 0 ds"

definition parseInt :: "string \<Rightarrow> int option" where
  "parseInt s =
     (let t = dropWhile isSpace s;
          negative = (case t of [] \<Rightarrow> False | c # _ \<Rightarrow> c = CHR ''-'');
          signed = (case t of [] \<Rightarrow> False | c # _ \<Rightarrow> c = CHR ''-'' \<or> c = CHR ''+'');
          ds = takeWhile isDigit (if signed then tl t else t)
      in if ds = [] then None
         else Some (if negative then - int (decimalValue ds) else int (decimalValue ds)))"

section \<open>The line grammars (parser.js, parseWhatsAppChat)\<close>

text \<open>
  The three regular expressions are matched by hand-written recognisers that return
  the capture groups. Each piece consumes what the greedy regular expression consumes:
  a digit run \<open>\d{lo,hi}\<close> is always followed by a character that is not a digit, and
  an optional group that matched cannot be given back, because what follows it in the
  pattern (\<open>]\<close>, \<open>-\<close> or the end of the group) cannot start where the group started. So no
  backtracking is needed, except inside \<open>\s*([^:]+):\<close>, treated in \<open>nameAndContent\<close>.
\<close>

datatype formatType = Ios | Android | Iso

text \<open>\<open>\d{lo,hi}\<close>: the digits taken and the rest.\<close>

definition digitsBetween :: "nat \<Rightarrow> nat \<Rightarrow> string \<Rightarrow> (string \<times> string) option" where
  "digitsBetween lo hi s =
     (let ds = take hi (takeWhile isDigit s)
      in if length ds < lo then None else Some (ds, drop (length ds) s))"

text \<open>A literal character.\<close>

definition lit :: "char \<Rightarrow> string \<Rightarrow> string option" where
  "lit c s = (case s of [] \<Rightarrow> None | x # rest \<Rightarrow> if x = c then Some rest else None)"

text \<open>\<open>\s*\<close> in front of something that is not whitespace.\<close>

definition skipSpaces :: "string \<Rightarrow> string" where
  "skipSpaces s = dropWhile isSpace s"

text \<open>\<open>(\d{1,2}\/\d{1,2}\/\d{2,4})\<close> and \<open>(\d{4}-\d{1,2}-\d{1,2})\<close>.\<close>

definition slashDate :: "string \<Rightarrow> (string \<times> string) option" where
  "slashDate s = do {
     (d, r1) \<leftarrow> digitsBetween 1 2 s;
     r2 \<leftarrow> lit CHR ''/'' r1;
     (m, r3) \<leftarrow> digitsBetween 1 2 r2;
     r4 \<leftarrow> lit CHR ''/'' r3;
     (y, r5) \<leftarrow> digitsBetween 2 4 r4;
     Some (d @ ''/'' @ m @ ''/'' @ y, r5)
   }"

definition isoDate :: "string \<Rightarrow> (string \<times> string) option" where
  "isoDate s = do {
     (y, r1) \<leftarrow> digitsBetween 4 4 s;
     r2 \<leftarrow> lit CHR ''-'' r1;
     (m, r3) \<leftarrow> digitsBetween 1 2 r2;
     r4 \<leftarrow> lit CHR ''-'' r3;
     (d, r5) \<leftarrow> digitsBetween 1 2 r4;
     Some (y @ ''-'' @ m @ ''-'' @ d, r5)
   }"

text \<open>\<open>(?::\d{2})?\<close> and \<open>(?:\s*[AP]M)?\<close>: what the group matched (possibly nothing).\<close>

definition optSeconds :: "string \<Rightarrow> string \<times> string" where
  "optSeconds s =
     (case lit CHR '':'' s of
        None \<Rightarrow> ([], s)
      | Some r \<Rightarrow> (case digitsBetween 2 2 r of
                    None \<Rightarrow> ([], s)
                  | Some (ds, r') \<Rightarrow> (CHR '':'' # ds, r')))"

definition optAmPm :: "string \<Rightarrow> string \<times> string" where
  "optAmPm s =
     (case dropWhile isSpace s of
        a # m # r \<Rightarrow>
          if (a = CHR ''A'' \<or> a = CHR ''P'') \<and> m = CHR ''M''
          then (takeWhile isSpace s @ [a, m], r) else ([], s)
      | _ \<Rightarrow> ([], s))"

text \<open>
  \<open>(\d{1,2}:\d{2}(?::\d{2})?(?:\s*[AP]M)?)\<close>; the Android pattern has no seconds
  group.
\<close>

definition timeOfDay :: "bool \<Rightarrow> string \<Rightarrow> (string \<times> string) option" where
  "timeOfDay withSeconds s = do {
     (h, r1) \<leftarrow> digitsBetween 1 2 s;
     r2 \<leftarrow> lit CHR '':'' r1;
     (mi, r3) \<leftarrow> digitsBetween 2 2 r2;
     let (sec, r4) = (if withSeconds then optSeconds r3 else ([], r3));
     let (ampm, r5) = optAmPm r4;
     Some (h @ '':'' @ mi @ sec @ ampm, r5)
   }"

text \<open>
  \<open>\s*([^:]+):\s*(.*)$\<close>. The name group ends at the first colon and must not be
  empty; \<open>\s*\<close> takes the leading whitespace but leaves the group one character when
  there is nothing else. The dot does not match a line terminator, so the content,
  after its leading whitespace, must not contain one.
\<close>

definition isLineTerminator :: "char \<Rightarrow> bool" where
  "isLineTerminator c \<longleftrightarrow> c = CHR 0x0A \<or> c = CHR 0x0D"

definition nameAndContent :: "string \<Rightarrow> (string \<times> string) option" where
  "nameAndContent s =
     (let beforeColon = takeWhile (\<lambda>c. c \<noteq> CHR '':'') s;
          fromColon = dropWhile (\<lambda>c. c \<noteq> CHR '':'') s
      in if beforeColon = [] \<or> fromColon = [] then None
         else
           (let nameGroup = (if dropWhile isSpace beforeColon = [] then [last beforeColon]
                             else dropWhile isSpace beforeColon);
                contentGroup = dropWhile isSpace (tl fromColon)
            in if list_ex isLineTerminator contentGroup then None
               else Some (nameGroup, contentGroup)))"

definition iosRegex :: "string \<Rightarrow> (string \<times> string \<times> string \<times> string) option" where
  "iosRegex line = do {
     r0 \<leftarrow> lit CHR ''['' line;
     (dateStr, r1) \<leftarrow> slashDate r0;
     r2 \<leftarrow> lit CHR '','' r1;
     (timeStr, r3) \<leftarrow> timeOfDay True (skipSpaces r2);
     r4 \<leftarrow> lit CHR '']'' r3;
     (nameGroup, contentGroup) \<leftarrow> nameAndContent r4;
     Some (dateStr, timeStr, nameGroup, contentGroup)
   }"

definition androidRegex :: "string \<Rightarrow> (string \<times> string \<times> string \<times> string) option" where
  "androidRegex line = do {
     (dateStr, r1) \<leftarrow> slashDate line;
     r2 \<leftarrow> lit CHR '','' r1;
     (timeStr, r3) \<leftarrow> timeOfDay False (skipSpaces r2);
     r4 \<leftarrow> lit CHR ''-'' (skipSpaces r3);
     (nameGroup, contentGroup) \<leftarrow> nameAndContent r4;
     Some (dateStr, timeStr, nameGroup, contentGroup)
   }"

definition isoRegex :: "string \<Rightarrow> (string \<times> string \<times> string \<times> string) option" where
  "isoRegex line = do {
     r0 \<leftarrow> lit CHR ''['' line;
     (dateStr, r1) \<leftarrow> isoDate r0;
     r2 \<leftarrow> lit CHR '','' r1;
     (timeStr, r3) \<leftarrow> timeOfDay True (skipSpaces r2);
     r4 \<leftarrow> lit CHR '']'' r3;
     (nameGroup, contentGroup) \<leftarrow> nameAndContent r4;
     Some (dateStr, timeStr, nameGroup, contentGroup)
   }"

text \<open>The three attempts in the order of the source: iOS, then Android, then ISO.\<close>

definition matchLine ::
  "string \<Rightarrow> (formatType \<times> string \<times> string \<times> string \<times> string) option" where
  "matchLine line =
     (case iosRegex line of
        Some m \<Rightarrow> Some (Ios, m)
      | None \<Rightarrow>
          (case androidRegex line of
             Some m \<Rightarrow> Some (Android, m)
           | None \<Rightarrow>
               (case isoRegex line of
                  Some m \<Rightarrow> Some (Iso, m)
                | None \<Rightarrow> None)))"

section \<open>Timestamps (parser.js, parseTimestamp)\<close>

datatype parseError =
    EmptyInput
  | NoMessagesFound
  | InvalidIsoDateFormat string
  | InvalidDateFormat string
  | InvalidTimeFormat string
  | InvalidDate

record dateFields =
  dateYear :: int
  dateMonth :: int
  dateDay :: int
  dateHours :: int
  dateMinutes :: int
  dateSeconds :: int

text \<open>
  The date part. A field is \<open>None\<close> when \<open>parseInt\<close> gave \<open>NaN\<close>; arithmetic keeps
  \<open>NaN\<close> and \<open>NaN < 100\<close> is false. The result is (year, month, day), the month
  zero-based.
\<close>

definition parseDatePart ::
  "string \<Rightarrow> formatType \<Rightarrow> parseError + (int option \<times> int option \<times> int option)" where
  "parseDatePart dateStr formatType =
     (if formatType = Iso \<or> strIncludes dateStr ''-'' then
        (let dateParts = map parseInt (splitOn CHR ''-'' dateStr)
         in if length dateParts = 3
            then Inr (dateParts ! 0, map_option (\<lambda>m. m - 1) (dateParts ! 1), dateParts ! 2)
            else Inl (InvalidIsoDateFormat dateStr))
      else
        (let dateParts = map parseInt (splitOn CHR ''/'' dateStr)
         in if length dateParts = 3
            then Inr (map_option (\<lambda>y. if y < 100 then y + 2000 else y) (dateParts ! 2),
                      map_option (\<lambda>m. m - 1) (dateParts ! 1),
                      dateParts ! 0)
            else Inl (InvalidDateFormat dateStr)))"

text \<open>
  \<open>timeStr.replace(/\s*(AM|PM|am|pm)/gi, '')\<close>: every occurrence of optional
  whitespace followed by AM or PM in any case is removed, scanning from the left.
\<close>

function removeAmPm :: "string \<Rightarrow> string" where
  "removeAmPm [] = []"
| "removeAmPm (c # cs) =
     (case dropWhile isSpace (c # cs) of
        a # m # r \<Rightarrow>
          if (toUpperChar a = CHR ''A'' \<or> toUpperChar a = CHR ''P'') \<and> toUpperChar m = CHR ''M''
          then removeAmPm r else c # removeAmPm cs
      | _ \<Rightarrow> c # removeAmPm cs)"
  by pat_completeness auto
termination
proof (relation "measure length")
  show "wf (measure length)" by simp
next
  fix c cs a m r and x21 :: char and x22 :: string
  assume "dropWhile isSpace (c # cs) = a # x22" "x22 = m # r"
  then have "length (a # m # r) \<le> length (c # cs)"
    using length_dropWhile_le[of isSpace "c # cs"] by simp
  then show "(r, c # cs) \<in> measure length" by simp
qed auto

text \<open>The time part: (hours, minutes, seconds) after the 12-hour adjustment.\<close>

definition parseTimePart ::
  "string \<Rightarrow> parseError + (int option \<times> int option \<times> int option)" where
  "parseTimePart timeStr =
     (let timeUpper = toUpperCase timeStr;
          isPM = strIncludes timeUpper ''PM'';
          isAM = strIncludes timeUpper ''AM'';
          cleanTime = trim (removeAmPm timeStr);
          timeParts = map parseInt (splitOn CHR '':'' cleanTime)
      in if length timeParts \<ge> 2 then
           (let hours = timeParts ! 0;
                minutes = timeParts ! 1;
                seconds = (if length timeParts = 3 then timeParts ! 2 else Some 0);
                hours' = (if isAM \<or> isPM then
                            (if isPM \<and> hours \<noteq> Some 12 then map_option (\<lambda>h. h + 12) hours
                             else if isAM \<and> hours = Some 12 then Some 0
                             else hours)
                          else hours)
            in Inr (hours', minutes, seconds))
         else Inl (InvalidTimeFormat timeStr))"

text \<open>
  The six arguments handed to \<open>new Date\<close>. When one of them is \<open>NaN\<close> the source
  builds an invalid \<open>Date\<close>; the model has no such timestamp and reports \<open>InvalidDate\<close>
  instead. No line that matched a grammar gets there.
\<close>

definition parseTimestampFields ::
  "string \<Rightarrow> string \<Rightarrow> formatType \<Rightarrow> parseError + dateFields" where
  "parseTimestampFields dateStr timeStr formatType =
     (case parseDatePart dateStr formatType of
        Inl e \<Rightarrow> Inl e
      | Inr (year, month, day) \<Rightarrow>
          (case parseTimePart timeStr of
             Inl e \<Rightarrow> Inl e
           | Inr (hours, minutes, seconds) \<Rightarrow>
               (case (year, month, day, hours, minutes, seconds) of
                  (Some y, Some mo, Some d, Some h, Some mi, Some s) \<Rightarrow>
                    Inr \<lparr>dateYear = y, dateMonth = mo, dateDay = d,
                         dateHours = h, dateMinutes = mi, dateSeconds = s\<rparr>
                | _ \<Rightarrow> Inl InvalidDate)))"

definition parseTimestamp :: "string \<Rightarrow> string \<Rightarrow> formatType \<Rightarrow> parseError + int" where
  "parseTimestamp dateStr timeStr formatType =
     (case parseTimestampFields dateStr timeStr formatType of
        Inl e \<Rightarrow> Inl e
      | Inr f \<Rightarrow> Inr (newDate (dateYear f) (dateMonth f) (dateDay f)
                          (dateHours f) (dateMinutes f) (dateSeconds f)))"

section \<open>Message classification (parser.js, isSystemMessage and isMediaMessage)\<close>

text \<open>
  The first \<open>replace\<close> of \<open>isSystemMessage\<close> deletes the zero-width characters
  U+200B to U+200F and U+FEFF: the bytes E2 80 8B to E2 80 8F, and EF BB BF.
\<close>

fun removeZeroWidth :: "string \<Rightarrow> string" where
  "removeZeroWidth (a # b # c # rest) =
     (if (a = CHR 0xE2 \<and> b = CHR 0x80 \<and> c \<in> set [CHR 0x8B, CHR 0x8C, CHR 0x8D, CHR 0x8E, CHR 0x8F])
         \<or> (a = CHR 0xEF \<and> b = CHR 0xBB \<and> c = CHR 0xBF)
      then removeZeroWidth rest
      else a # removeZeroWidth (b # c # rest))"
| "removeZeroWidth s = s"

text \<open>\<open>.replace(/\s+/g, ' ')\<close>: every run of whitespace becomes one space.\<close>

fun collapseFrom :: "bool \<Rightarrow> string \<Rightarrow> string" where
  "collapseFrom inRun [] = []"
| "collapseFrom inRun (c # cs) =
     (if isSpace c then (if inRun then collapseFrom True cs else CHR '' '' # collapseFrom True cs)
      else c # collapseFrom False cs)"

definition collapseSpaces :: "string \<Rightarrow> string" where
  "collapseSpaces s = collapseFrom False s"

definition systemIndicators :: "string list" where
  "systemIndicators =
     [''messages and calls are end-to-end encrypted'',
      ''created group'',
      ''added'',
      ''removed'',
      ''left'',
      ''changed the subject'',
      ''changed this group'' @ [CHR 0x27] @ ''s icon'',
      ''changed the group description'',
      ''you deleted this message'',
      ''this message was deleted'',
      ''security code changed'',
      ''joined using this group'' @ [CHR 0x27] @ ''s invite link'',
      ''missed voice call'',
      ''missed video call'',
      ''voice call'',
      ''video call'',
      ''waiting for this message'',
      ''trying to call you'',
      ''called you'',
      ''tap to call back'',
      ''call back'']"

definition isSystemMessage :: "string \<Rightarrow> string \<Rightarrow> bool" where
  "isSystemMessage contentText participantName =
     (let cleanContent = trim (toLowerCase (collapseSpaces (removeZeroWidth contentText)))
      in if list_ex (\<lambda>indicator. strIncludes cleanContent indicator) systemIndicators then True
         else if strIncludes cleanContent ''missed'' \<and> strIncludes cleanContent ''call'' then True
         else if (strIncludes cleanContent ''voice'' \<or> strIncludes cleanContent ''video'')
                 \<and> strIncludes cleanContent ''call'' then True
         else False)"

text \<open>U+200E, the left-to-right mark in front of six of the indicators, is E2 80 8E.\<close>

definition lrm :: string where
  "lrm = [CHR 0xE2, CHR 0x80, CHR 0x8E]"

definition mediaIndicators :: "string list" where
  "mediaIndicators =
     [''<attached:'',
      ''image omitted'',
      ''video omitted'',
      ''audio omitted'',
      ''sticker omitted'',
      ''GIF omitted'',
      ''document omitted'',
      ''Contact card omitted'',
      ''<Media omitted>'',
      lrm @ ''image omitted'',
      lrm @ ''video omitted'',
      lrm @ ''audio omitted'',
      lrm @ ''sticker omitted'',
      lrm @ ''GIF omitted'',
      lrm @ ''document omitted'']"

definition isMediaMessage :: "string \<Rightarrow> bool" where
  "isMediaMessage contentText =
     (let contentLower = toLowerCase contentText
      in list_ex (\<lambda>indicator. strIncludes contentLower (toLowerCase indicator)) mediaIndicators)"

section \<open>Tokenization (parser.js, parseWhatsAppChat)\<close>

text \<open>The \<open>else\<close> branch of the loop body: a continuation line joins the current message.\<close>

definition appendLine :: "message \<Rightarrow> string \<Rightarrow> message" where
  "appendLine currentMessage line =
     (let appended = currentMessage\<lparr>content := content currentMessage @ [CHR 0x0A] @ line\<rparr>
      in if isMediaMessage line then appended\<lparr>isMedia := True\<rparr> else appended)"

text \<open>\<open>if (currentMessage) messages.push(currentMessage)\<close>.\<close>

definition flush :: "message list \<Rightarrow> message option \<Rightarrow> message list" where
  "flush parsedMessages currentMessage =
     (case currentMessage of None \<Rightarrow> parsedMessages | Some m \<Rightarrow> parsedMessages @ [m])"

text \<open>
  The loop over the lines, with the state \<open>messages\<close> and \<open>currentMessage\<close>. An
  exception of \<open>parseTimestamp\<close> leaves the loop and the function.
\<close>

fun tokenize ::
  "string list \<Rightarrow> message list \<Rightarrow> message option \<Rightarrow>
   parseError + (message list \<times> message option)" where
  "tokenize [] parsedMessages currentMessage = Inr (parsedMessages, currentMessage)"
| "tokenize (raw # rest) parsedMessages currentMessage =
     (let line = trim raw in
      if length line = 0 then tokenize rest parsedMessages currentMessage
      else
        (case matchLine line of
           Some (formatType, dateStr, timeStr, nameGroup, contentGroup) \<Rightarrow>
             (let participantName = trim nameGroup;
                  contentText = trim contentGroup
              in case parseTimestamp dateStr timeStr formatType of
                   Inl e \<Rightarrow> Inl e
                 | Inr parsed \<Rightarrow>
                     tokenize rest (flush parsedMessages currentMessage)
                       (Some \<lparr>timestamp = parsed, participant = participantName,
                              content = contentText,
                              isSystem = isSystemMessage contentText participantName,
                              isMedia = isMediaMessage contentText\<rparr>))
         | None \<Rightarrow>
             (case currentMessage of
                Some m \<Rightarrow> tokenize rest parsedMessages (Some (appendLine m line))
              | None \<Rightarrow> tokenize rest parsedMessages None)))"


text \<open>The transcript of the end-to-end example with a continuation line and a header.\<close>

definition exampleTranscript :: string where
  "exampleTranscript =
     ''Chat export'' @ [CHR 0x0A] @
     ''[1/2/2024, 10:00:00] Alice: Hello'' @ [CHR 0x0A] @
     ''see this'' @ [CHR 0x0A] @
     ''<Media omitted>'' @ [CHR 0x0A] @
     ''and more'' @ [CHR 0x0A] @
     [CHR 0x0A] @
     ''[1/2/2024, 10:05:00] Bob: Hi Alice'' @ [CHR 0x0A]"

section \<open>Shapes of the captured date and time strings\<close>

text \<open>A non-empty run of digits, and a string of digits and colons.\<close>

definition digitString :: "string \<Rightarrow> bool" where
  "digitString ds \<longleftrightarrow> ds \<noteq> [] \<and> (\<forall>c \<in> set ds. isDigit c)"

definition timeCore :: "string \<Rightarrow> bool" where
  "timeCore s \<longleftrightarrow> (\<forall>c \<in> set s. isDigit c \<or> c = CHR '':'')"

text \<open>
  The optional groups of a time string: the seconds, and the AM/PM marker with the
  whitespace in front of it. \<open>None\<close> stands for a group that is absent.
\<close>

definition secondsText :: "string option \<Rightarrow> string" where
  "secondsText seconds = (case seconds of None \<Rightarrow> [] | Some ss \<Rightarrow> CHR '':'' # ss)"

definition ampmText :: "string \<Rightarrow> char option \<Rightarrow> string" where
  "ampmText ws marker = (case marker of None \<Rightarrow> [] | Some a \<Rightarrow> ws @ [a, CHR ''M''])"

text \<open>
  The rules of the specification: a year below 100 is read as 2000 plus that year, and
  the 12-hour adjustment adds 12 to a PM hour other than 12 and turns 12 AM into 0.
\<close>

definition expandYear :: "int \<Rightarrow> int" where
  "expandYear y = (if y < 100 then 2000 + y else y)"

definition twelveHour :: "char option \<Rightarrow> int \<Rightarrow> int" where
  "twelveHour marker hour =
     (if marker = Some CHR ''P'' \<and> hour \<noteq> 12 then hour + 12
      else if marker = Some CHR ''A'' \<and> hour = 12 then 0
      else hour)"

definition numberOf :: "string \<Rightarrow> int" where
  "numberOf ds = int (decimalValue ds)"

section \<open>Month keys (statistics.js, getMonthKey)\<close>

text \<open>
  \<open>getFullYear()\<close> and \<open>getMonth()\<close> of a timestamp on the local clock: the civil
  date of the day number, counted in 400-year eras that start on 1 March.
\<close>

definition civilYearMonth :: "int \<Rightarrow> int \<times> int" where
  "civilYearMonth dayNumber =
     (let z = dayNumber + 719468;
          era = z div 146097;
          dayOfEra = z - era * 146097;
          yearOfEra = (dayOfEra - dayOfEra div 1460 + dayOfEra div 36524 - dayOfEra div 146096)
                        div 365;
          dayOfYear = dayOfEra - (365 * yearOfEra + yearOfEra div 4 - yearOfEra div 100);
          mp = (5 * dayOfYear + 2) div 153;
          monthNumber = (if mp < 10 then mp + 3 else mp - 9);
          y = yearOfEra + era * 400
      in (if monthNumber \<le> 2 then y + 1 else y, monthNumber - 1))"

definition getFullYear :: "int \<Rightarrow> int" where
  "getFullYear t = fst (civilYearMonth (t div msPerDay))"

definition getMonth :: "int \<Rightarrow> int" where
  "getMonth t = snd (civilYearMonth (t div msPerDay))"

text \<open>\<open>String(n)\<close> for an integer, and \<open>padStart(2, '0')\<close>.\<close>

function showDigits :: "nat \<Rightarrow> string" where
  "showDigits n =
     (if n < 10 then [''0123456789'' ! n]
      else showDigits (n div 10) @ [''0123456789'' ! (n mod 10)])"
  by pat_completeness auto
termination
  by (relation "measure id") auto

definition showNumber :: "int \<Rightarrow> string" where
  "showNumber i = (if i < 0 then CHR ''-'' # showDigits (nat (- i)) else showDigits (nat i))"

definition padStart2 :: "string \<Rightarrow> string" where
  "padStart2 s = replicate (2 - length s) CHR ''0'' @ s"

definition getMonthKey :: "int \<Rightarrow> string" where
  "getMonthKey date = showNumber (getFullYear date) @ ''-'' @ padStart2 (showNumber (getMonth date + 1))"

text \<open>
  \<open>a.localeCompare(b) <= 0\<close> on keys made of digits and hyphens: the order of the
  character codes, in which the hyphen comes before the digits as it does in the
  collation.
\<close>

fun keyLessEq :: "string \<Rightarrow> string \<Rightarrow> bool" where
  "keyLessEq [] b = True"
| "keyLessEq (x # a) [] = False"
| "keyLessEq (x # a) (y # b) =
     (if x = y then keyLessEq a b else (of_char x :: nat) < of_char y)"

text \<open>\<open>Array.prototype.sort\<close> with a comparator: a stable insertion sort.\<close>

fun insertBy :: "('a \<Rightarrow> 'a \<Rightarrow> bool) \<Rightarrow> 'a \<Rightarrow> 'a list \<Rightarrow> 'a list" where
  "insertBy le x [] = [x]"
| "insertBy le x (y # ys) = (if le x y then x # y # ys else y # insertBy le x ys)"

definition sortBy :: "('a \<Rightarrow> 'a \<Rightarrow> bool) \<Rightarrow> 'a list \<Rightarrow> 'a list" where
  "sortBy le xs = foldr (insertBy le) xs []"

section \<open>Sentiment (statistics.js, analyzeMessageSentiment and analyzeSentiment)\<close>

text \<open>
  The scorer is the external library \<open>window.Sentiment\<close>: \<open>None\<close> when it is not
  loaded, otherwise a function from the text to the integer \<open>result.score\<close>, or to
  \<open>None\<close> when \<open>analyze\<close> throws. Scores are exact rationals.
\<close>

type_synonym scorer = "(string \<Rightarrow> int option) option"

definition analyzeMessageSentiment :: "scorer \<Rightarrow> string \<Rightarrow> rat" where
  "analyzeMessageSentiment sentiment text =
     (if text = [] \<or> length (trim text) = 0 then 0
      else case sentiment of
             None \<Rightarrow> 0
           | Some analyze \<Rightarrow>
               (case analyze text of
                  None \<Rightarrow> 0
                | Some score \<Rightarrow> max (- 1) (min 1 (of_int score / 10))))"

record scoredMessage =
  scoredContent :: string
  score :: rat
  scoredTimestamp :: int

record periodData =
  scores :: "rat list"
  periodPositive :: nat
  periodNegative :: nat
  periodNeutral :: nat

record trendPoint =
  period :: string
  avgScore :: rat
  trendPositive :: nat
  trendNegative :: nat
  trendNeutral :: nat

record sentimentResult =
  overall :: rat
  positiveCount :: nat
  negativeCount :: nat
  neutralCount :: nat
  sentimentTrend :: "trendPoint list"
  topPositive :: "scoredMessage list"
  topNegative :: "scoredMessage list"

text \<open>
  The state of the \<open>forEach\<close>: \<open>totalScore\<close>, the three counts, \<open>periodMap\<close> (a
  \<open>Map\<close> in insertion order) and \<open>scoredMessages\<close>.
\<close>

record sentimentState =
  totalScore :: rat
  statePositive :: nat
  stateNegative :: nat
  stateNeutral :: nat
  periodMap :: "(string \<times> periodData) list"
  scoredMessages :: "scoredMessage list"

definition MAX_LENGTH :: nat where
  "MAX_LENGTH = 200"

text \<open>\<open>period.scores.push(score)\<close> and the count of the category, on the entry of a key.\<close>

definition recordScore :: "rat \<Rightarrow> periodData \<Rightarrow> periodData" where
  "recordScore s p =
     (let p1 = p\<lparr>scores := scores p @ [s]\<rparr>
      in if s > 5 / 100 then p1\<lparr>periodPositive := periodPositive p1 + 1\<rparr>
         else if s < - (5 / 100) then p1\<lparr>periodNegative := periodNegative p1 + 1\<rparr>
         else p1\<lparr>periodNeutral := periodNeutral p1 + 1\<rparr>)"

fun updatePeriod :: "string \<Rightarrow> rat \<Rightarrow> (string \<times> periodData) list \<Rightarrow> (string \<times> periodData) list" where
  "updatePeriod monthKey s [] =
     [(monthKey, recordScore s \<lparr>scores = [], periodPositive = 0, periodNegative = 0,
                                 periodNeutral = 0\<rparr>)]"
| "updatePeriod monthKey s ((k, p) # m) =
     (if k = monthKey then (k, recordScore s p) # m else (k, p) # updatePeriod monthKey s m)"

text \<open>The body of the \<open>forEach\<close>; the two early returns leave the state as it is.\<close>

definition sentimentStep :: "scorer \<Rightarrow> sentimentState \<Rightarrow> message \<Rightarrow> sentimentState" where
  "sentimentStep sentiment st msg =
     (if content msg = [] \<or> length (trim (content msg)) = 0 then st
      else if length (content msg) > MAX_LENGTH then st
      else
        (let s = analyzeMessageSentiment sentiment (content msg);
             st1 = st\<lparr>totalScore := totalScore st + s,
                       scoredMessages := scoredMessages st
                         @ [\<lparr>scoredContent = content msg, score = s,
                              scoredTimestamp = timestamp msg\<rparr>]\<rparr>;
             st2 = (if s > 5 / 100 then st1\<lparr>statePositive := statePositive st1 + 1\<rparr>
                    else if s < - (5 / 100) then st1\<lparr>stateNegative := stateNegative st1 + 1\<rparr>
                    else st1\<lparr>stateNeutral := stateNeutral st1 + 1\<rparr>)
         in st2\<lparr>periodMap := updatePeriod (getMonthKey (timestamp msg)) s (periodMap st2)\<rparr>))"

definition initialSentimentState :: sentimentState where
  "initialSentimentState =
     \<lparr>totalScore = 0, statePositive = 0, stateNegative = 0, stateNeutral = 0,
      periodMap = [], scoredMessages = []\<rparr>"

definition trendPointOf :: "string \<times> periodData \<Rightarrow> trendPoint" where
  "trendPointOf entry =
     \<lparr>period = fst entry,
      avgScore = foldl (+) 0 (scores (snd entry)) / of_nat (length (scores (snd entry))),
      trendPositive = periodPositive (snd entry),
      trendNegative = periodNegative (snd entry),
      trendNeutral = periodNeutral (snd entry)\<rparr>"

text \<open>
  Everything after the participant lookup, for the messages of the participant.
  \<open>slice(-5)\<close> is the last five elements.
\<close>

definition sentimentOf :: "scorer \<Rightarrow> message list \<Rightarrow> sentimentResult" where
  "sentimentOf sentiment participantMessages =
     (let sortedMessages = sortByTimestamp participantMessages;
          st = foldl (sentimentStep sentiment) initialSentimentState sortedMessages;
          trendPoints = sortBy (\<lambda>a b. keyLessEq (period a) (period b))
                          (map trendPointOf (periodMap st));
          sortedByScore = sortBy (\<lambda>a b. score b \<le> score a) (scoredMessages st)
      in \<lparr>overall = (if length sortedMessages > 0
                     then totalScore st / of_nat (length sortedMessages) else 0),
          positiveCount = statePositive st,
          negativeCount = stateNegative st,
          neutralCount = stateNeutral st,
          sentimentTrend = trendPoints,
          topPositive = filter (\<lambda>m. score m > 0) (take 5 sortedByScore),
          topNegative = filter (\<lambda>m. score m < 0)
                          (rev (drop (length sortedByScore - 5) sortedByScore))\<rparr>)"

definition analyzeSentiment :: "scorer \<Rightarrow> participants \<Rightarrow> string \<Rightarrow> sentimentResult" where
  "analyzeSentiment sentiment ps participantName =
     (case getParticipant ps participantName of
        None \<Rightarrow> \<lparr>overall = 0, positiveCount = 0, negativeCount = 0, neutralCount = 0,
                  sentimentTrend = [], topPositive = [], topNegative = []\<rparr>
      | Some p \<Rightarrow> sentimentOf sentiment (messages p))"

text \<open>
  A scorer that rates the word good at 3, a short message, a message of 201 characters,
  and a participant holding the one or both.
\<close>

definition exampleScorer :: scorer where
  "exampleScorer = Some (\<lambda>text. Some (if text = ''good'' then 3 else 0))"

definition exampleShort :: message where
  "exampleShort = \<lparr>timestamp = newDate 2024 0 1 10 0 0, participant = ''Alice'',
     content = ''good'', isSystem = False, isMedia = False\<rparr>"

definition exampleLong :: message where
  "exampleLong = \<lparr>timestamp = newDate 2024 0 1 10 5 0, participant = ''Alice'',
     content = replicate 201 CHR ''a'', isSystem = False, isMedia = False\<rparr>"

definition sentimentParticipants :: "message list \<Rightarrow> participants" where
  "sentimentParticipants ms =
     [(''Alice'', (newParticipantData ''Alice'')\<lparr>messageCount := length ms, messages := ms\<rparr>)]"

section \<open>Properties of response-time attribution\<close>


lemma map_of_modifyParticipant:
  "map_of (modifyParticipant n f ps) k =
     (if k = n then map_option f (map_of ps n) else map_of ps k)"
  by (induction n f ps rule: modifyParticipant.induct) auto

lemma getParticipant_modify_same:
  "getParticipant ps n = Some pd \<Longrightarrow>
   getParticipant (modifyParticipant n f ps) n = Some (f pd)"
  by (simp add: getParticipant_def map_of_modifyParticipant)

lemma getParticipant_modify_other:
  "k \<noteq> n \<Longrightarrow> getParticipant (modifyParticipant n f ps) k = getParticipant ps k"
  by (simp add: getParticipant_def map_of_modifyParticipant)

lemma findResponse_Some:
  "findResponse m rest = Some (r, d) \<Longrightarrow>
   \<exists>j < length rest. r = participant (rest ! j) \<and> r \<noteq> participant m \<and>
     (\<forall>k < j. participant (rest ! k) = participant m) \<and>
     d = timestamp (rest ! j) - timestamp m \<and> d < 86400000"
proof (induction rest)
  case Nil
  then show ?case by simp
next
  case (Cons n rest)
  show ?case
  proof (cases "participant n \<noteq> participant m")
    case True
    with Cons.prems have "r = participant n" "d = timestamp n - timestamp m" "d < 86400000"
      by (auto simp: Let_def isValidResponseTime_def split: if_splits)
    with True show ?thesis by (intro exI[of _ 0]) simp
  next
    case False
    with Cons.prems have "findResponse m rest = Some (r, d)" by simp
    from Cons.IH[OF this] obtain j where j: "j < length rest" "r = participant (rest ! j)"
      "r \<noteq> participant m" "\<forall>k < j. participant (rest ! k) = participant m"
      "d = timestamp (rest ! j) - timestamp m" "d < 86400000" by blast
    have "\<forall>k < Suc j. participant ((n # rest) ! k) = participant m"
      using False j(4) by (auto simp: nth_Cons split: nat.splits)
    with j show ?thesis by (intro exI[of _ "Suc j"]) simp
  qed
qed

lemma responseSamples_sound:
  "(r, d) \<in> set (responseSamples xs) \<Longrightarrow>
   \<exists>i j. firstOtherAfter xs i j \<and> r = participant (xs ! j) \<and>
     d = timestamp (xs ! j) - timestamp (xs ! i) \<and> d < 86400000"
proof (induction xs)
  case Nil
  then show ?case by simp
next
  case (Cons m rest)
  consider (here) "findResponse m rest = Some (r, d)"
    | (later) "(r, d) \<in> set (responseSamples rest)"
    using Cons.prems by (auto split: option.splits)
  then show ?case
  proof cases
    case here
    from findResponse_Some[OF here] obtain j where j: "j < length rest"
      "r = participant (rest ! j)" "r \<noteq> participant m"
      "\<forall>k < j. participant (rest ! k) = participant m"
      "d = timestamp (rest ! j) - timestamp m" "d < 86400000" by blast
    have "firstOtherAfter (m # rest) 0 (Suc j)"
      using j by (auto simp: firstOtherAfter_def nth_Cons split: nat.splits)
    with j show ?thesis by (intro exI[of _ 0] exI[of _ "Suc j"]) simp
  next
    case later
    from Cons.IH[OF later] obtain i j where ij: "firstOtherAfter rest i j"
      "r = participant (rest ! j)" "d = timestamp (rest ! j) - timestamp (rest ! i)"
      "d < 86400000" by blast
    have "firstOtherAfter (m # rest) (Suc i) (Suc j)"
      unfolding firstOtherAfter_def
    proof (intro conjI allI impI)
      fix k assume k: "Suc i < k \<and> k < Suc j"
      then obtain k' where k': "k = Suc k'" by (cases k) auto
      with k ij(1) show "participant ((m # rest) ! k) = participant ((m # rest) ! Suc i)"
        by (simp add: firstOtherAfter_def)
    qed (use ij(1) in \<open>simp_all add: firstOtherAfter_def\<close>)
    with ij show ?thesis by (intro exI[of _ "Suc i"] exI[of _ "Suc j"]) simp
  qed
qed

lemma responseLoop_responseTimes:
  "getParticipant ps p = Some pd \<Longrightarrow>
   \<exists>pd'. getParticipant (responseLoop xs ps) p = Some pd' \<and>
     responseTimes pd' =
       responseTimes pd @ map snd (filter (\<lambda>s. fst s = p) (responseSamples xs))"
proof (induction xs arbitrary: ps pd)
  case Nil
  then show ?case by simp
next
  case (Cons m rest)
  show ?case
  proof (cases "findResponse m rest")
    case None
    with Cons show ?thesis by simp
  next
    case (Some s)
    obtain r d where s: "s = (r, d)" by (cases s)
    show ?thesis
    proof (cases "r = p")
      case True
      have "getParticipant (modifyParticipant r (addResponseTime d) ps) p
              = Some (addResponseTime d pd)"
        using Cons.prems True by (simp add: getParticipant_modify_same)
      from Cons.IH[OF this] show ?thesis
        using Some s True by (simp add: addResponseTime_def)
    next
      case False
      have "getParticipant (modifyParticipant r (addResponseTime d) ps) p = Some pd"
        using Cons.prems False by (simp add: getParticipant_modify_other)
      from Cons.IH[OF this] show ?thesis
        using Some s False by simp
    qed
  qed
qed


lemma sorted_sortByTimestamp: "sorted (map timestamp (sortByTimestamp ms))"
  by (simp add: sortByTimestamp_def)

lemma sortByTimestamp_mono:
  "i \<le> j \<Longrightarrow> j < length (sortByTimestamp ms) \<Longrightarrow>
   timestamp (sortByTimestamp ms ! i) \<le> timestamp (sortByTimestamp ms ! j)"
  using sorted_nth_mono[OF sorted_sortByTimestamp, of i j ms] by simp

text \<open>
  C4. Every sample that \<open>calculateResponseTimes\<close> appends to the record of a
  participant \<open>p\<close> is the delta between some message \<open>i\<close> of the sorted sequence
  and the first later message \<open>j\<close> of a different participant, that message \<open>j\<close> is
  by \<open>p\<close> (so message \<open>i\<close> is not), and the delta is below 24 hours; nothing else
  of the sample list changes.
\<close>

theorem calculateResponseTimes_attribution:
  assumes "getParticipant ps p = Some pd"
  shows "\<exists>pd' samples.
     getParticipant (calculateResponseTimes ms ps) p = Some pd' \<and>
     responseTimes pd' = responseTimes pd @ samples \<and>
     (\<forall>d \<in> set samples. \<exists>i j.
        firstOtherAfter (sortByTimestamp ms) i j \<and>
        participant (sortByTimestamp ms ! j) = p \<and>
        participant (sortByTimestamp ms ! i) \<noteq> p \<and>
        d = timestamp (sortByTimestamp ms ! j) - timestamp (sortByTimestamp ms ! i) \<and>
        0 \<le> d \<and> d < 24 * 60 * 60 * 1000)"
proof -
  let ?s = "sortByTimestamp ms"
  let ?samples = "map snd (filter (\<lambda>s. fst s = p) (responseSamples ?s))"
  from responseLoop_responseTimes[OF assms, of ?s] obtain pd' where
    pd': "getParticipant (calculateResponseTimes ms ps) p = Some pd'"
         "responseTimes pd' = responseTimes pd @ ?samples"
    by (auto simp: calculateResponseTimes_def)
  have "\<exists>i j. firstOtherAfter ?s i j \<and> participant (?s ! j) = p \<and>
          participant (?s ! i) \<noteq> p \<and>
          d = timestamp (?s ! j) - timestamp (?s ! i) \<and> 0 \<le> d \<and> d < 24 * 60 * 60 * 1000"
    if "d \<in> set ?samples" for d
  proof -
    from that have "(p, d) \<in> set (responseSamples ?s)" by auto
    from responseSamples_sound[OF this] obtain i j where ij:
      "firstOtherAfter ?s i j" "p = participant (?s ! j)"
      "d = timestamp (?s ! j) - timestamp (?s ! i)" "d < 86400000" by blast
    from ij(1) have lt: "i \<le> j" "j < length ?s" and ne: "participant (?s ! j) \<noteq> participant (?s ! i)"
      by (auto simp: firstOtherAfter_def)
    from sortByTimestamp_mono[OF lt] ij(3) have "0 \<le> d" by simp
    with ij ne show ?thesis by (intro exI[of _ i] exI[of _ j]) auto
  qed
  with pd' show ?thesis by blast
qed

theorem calculateResponseTimes_attribution_witness:
  "getParticipant exampleParticipants ''Bob'' = Some (newParticipantData ''Bob'') \<and>
   map (\<lambda>p. (name p, responseTimes p))
     (getAllParticipants (calculateResponseTimes [exampleAlice, exampleBob] exampleParticipants))
     = [(''Alice'', []), (''Bob'', [300000])] \<and>
   (\<exists>pd' samples.
     getParticipant (calculateResponseTimes [exampleAlice, exampleBob] exampleParticipants) ''Bob''
       = Some pd' \<and>
     responseTimes pd' = responseTimes (newParticipantData ''Bob'') @ samples \<and>
     (\<forall>d \<in> set samples. \<exists>i j.
        firstOtherAfter (sortByTimestamp [exampleAlice, exampleBob]) i j \<and>
        participant (sortByTimestamp [exampleAlice, exampleBob] ! j) = ''Bob'' \<and>
        participant (sortByTimestamp [exampleAlice, exampleBob] ! i) \<noteq> ''Bob'' \<and>
        d = timestamp (sortByTimestamp [exampleAlice, exampleBob] ! j)
            - timestamp (sortByTimestamp [exampleAlice, exampleBob] ! i) \<and>
        0 \<le> d \<and> d < 24 * 60 * 60 * 1000))"
proof -
  have h: "getParticipant exampleParticipants ''Bob'' = Some (newParticipantData ''Bob'')"
    by (simp add: getParticipant_def exampleParticipants_def)
  have e: "map (\<lambda>p. (name p, responseTimes p))
     (getAllParticipants (calculateResponseTimes [exampleAlice, exampleBob] exampleParticipants))
     = [(''Alice'', []), (''Bob'', [300000])]"
    by (simp add: getAllParticipants_def calculateResponseTimes_def sortByTimestamp_def
        exampleParticipants_def exampleAlice_def exampleBob_def isValidResponseTime_def
        addResponseTime_def newParticipantData_def)
  from h e calculateResponseTimes_attribution[OF h, of "[exampleAlice, exampleBob]"]
  show ?thesis by blast
qed

section \<open>Properties of the conversation-boundary analyzers\<close>

lemma length_starterFlagsFrom: "length (starterFlagsFrom p xs) = length xs"
  by (induction xs arbitrary: p) auto

lemma length_starterFlags: "length (starterFlags xs) = length xs"
  by (cases xs) (auto simp: length_starterFlagsFrom)

lemma length_initiatorFlags: "length (initiatorFlags xs lastT) = length xs"
  by (induction xs arbitrary: lastT) auto

lemma initiatorFlags_Some:
  "initiatorFlags xs (Some (timestamp p)) = starterFlagsFrom p xs"
  by (induction xs arbitrary: p) auto

lemma initiatorFlags_starterFlags: "initiatorFlags xs None = starterFlags xs"
  by (cases xs) (auto simp: initiatorFlags_Some)

lemma starterFlagsFrom_nth:
  "i < length xs \<Longrightarrow>
   starterFlagsFrom p xs ! i = isNewConversation (gapBefore (p # xs) (Suc i))"
proof (induction xs arbitrary: p i)
  case Nil
  then show ?case by simp
next
  case (Cons x xs)
  show ?case
  proof (cases i)
    case 0
    then show ?thesis by (simp add: gapBefore_def)
  next
    case (Suc k)
    with Cons.prems have "k < length xs" by simp
    from Cons.IH[OF this, of x] Suc show ?thesis by (simp add: gapBefore_def)
  qed
qed

lemma starterFlags_nth:
  "0 < i \<Longrightarrow> i < length xs \<Longrightarrow> starterFlags xs ! i = isNewConversation (gapBefore xs i)"
proof (cases xs)
  case Nil
  assume "i < length xs"
  with Nil show ?thesis by simp
next
  case (Cons x rest)
  assume "0 < i" "i < length xs"
  then obtain k where k: "i = Suc k" "k < length rest" using Cons by (cases i) auto
  with Cons starterFlagsFrom_nth[OF k(2), of x] show ?thesis by simp
qed

text \<open>The starter counts are the fold over the messages the loop flags.\<close>

lemma startersLoop_flagged:
  "startersLoop p xs ps =
     foldl (\<lambda>ps m. modifyParticipant (participant m) startConversation ps) ps
       (flagged xs (starterFlagsFrom p xs))"
  by (induction xs arbitrary: p ps) (auto simp: flagged_def Let_def)

lemma calculateConversationStarters_flagged:
  "calculateConversationStarters ms ps =
     foldl (\<lambda>ps m. modifyParticipant (participant m) startConversation ps) ps
       (flagged (sortByTimestamp ms) (starterFlags (sortByTimestamp ms)))"
  by (cases "sortByTimestamp ms")
     (auto simp: calculateConversationStarters_def startersLoop_flagged flagged_def)

lemma initiatorLoop_flagged:
  "initiatorLoop xs lastT patterns =
     foldl (\<lambda>patterns m. recordInitiator m patterns) patterns
       (flagged xs (initiatorFlags xs lastT))"
  by (induction xs arbitrary: lastT patterns) (auto simp: flagged_def)

lemma getConversationInitiatorPatterns_flagged:
  "getConversationInitiatorPatterns ms ps =
     foldl (\<lambda>patterns m. recordInitiator m patterns) (initialPatterns ps)
       (flagged (sortByTimestamp ms) (initiatorFlags (sortByTimestamp ms) None))"
  by (simp add: getConversationInitiatorPatterns_def initiatorLoop_flagged)

text \<open>
  The partition: what \<open>convoLoop\<close> adds to its state, as flags. \<open>closeConvo\<close> is the
  push of a non-empty current conversation.
\<close>

lemma conversationFlags_append:
  "conversationFlags (cs @ ds) = conversationFlags cs @ conversationFlags ds"
  by (simp add: conversationFlags_def)

lemma conversationFlags_single_snoc:
  "c \<noteq> [] \<Longrightarrow> conversationFlags [c @ [m]] = conversationFlags [c] @ [False]"
  by (cases c) (auto simp: conversationFlags_def)

lemma convoLoop_flags:
  assumes "convoLoop xs cs cur lastT = (cs', cur')"
    and "lastT = None \<longrightarrow> cur = []" and "cur = [] \<longrightarrow> lastT = None"
  shows "conversationFlags (if length cur' > 0 then cs' @ [cur'] else cs')
           = conversationFlags (if length cur > 0 then cs @ [cur] else cs)
             @ initiatorFlags xs lastT
         \<and> concat (if length cur' > 0 then cs' @ [cur'] else cs')
           = concat (if length cur > 0 then cs @ [cur] else cs) @ xs
         \<and> ([] \<notin> set cs \<longrightarrow> [] \<notin> set cs')"
  using assms
proof (induction xs arbitrary: cs cur lastT)
  case Nil
  then show ?case by auto
next
  case (Cons m rest)
  show ?case
  proof (cases "case lastT of None \<Rightarrow> False | Some t \<Rightarrow> \<not> isNewConversation (timestamp m - t)")
    case True
    then obtain t where t: "lastT = Some t" "\<not> isNewConversation (timestamp m - t)"
      by (cases lastT) auto
    with Cons.prems have ne: "cur \<noteq> []" by auto
    from Cons.prems(1) True
    have step: "convoLoop rest cs (cur @ [m]) (Some (timestamp m)) = (cs', cur')" by simp
    from Cons.IH[OF step] have IH:
      "conversationFlags (if length cur' > 0 then cs' @ [cur'] else cs')
         = conversationFlags (cs @ [cur @ [m]]) @ initiatorFlags rest (Some (timestamp m))"
      "concat (if length cur' > 0 then cs' @ [cur'] else cs') = concat (cs @ [cur @ [m]]) @ rest"
      "[] \<notin> set cs \<longrightarrow> [] \<notin> set cs'"
      by simp_all
    show ?thesis
      using IH t ne
      by (simp add: conversationFlags_append conversationFlags_single_snoc)
  next
    case False
    let ?cs1 = "if length cur > 0 then cs @ [cur] else cs"
    from Cons.prems(1) False
    have step: "convoLoop rest ?cs1 [m] (Some (timestamp m)) = (cs', cur')" by simp
    from Cons.IH[OF step] have IH:
      "conversationFlags (if length cur' > 0 then cs' @ [cur'] else cs')
         = conversationFlags (?cs1 @ [[m]]) @ initiatorFlags rest (Some (timestamp m))"
      "concat (if length cur' > 0 then cs' @ [cur'] else cs') = concat (?cs1 @ [[m]]) @ rest"
      "[] \<notin> set ?cs1 \<longrightarrow> [] \<notin> set cs'"
      by simp_all
    have flag: "(case lastT of None \<Rightarrow> True | Some t \<Rightarrow> isNewConversation (timestamp m - t))"
      using False by (cases lastT) auto
    have single: "conversationFlags [[m]] = [True]" by (simp add: conversationFlags_def)
    show ?thesis
      using IH flag single
      by (auto simp: conversationFlags_append simp del: append_assoc)
  qed
qed

lemma splitConversations_flags:
  "conversationFlags (splitConversations xs) = starterFlags xs"
  "concat (splitConversations xs) = xs"
  "[] \<notin> set (splitConversations xs)"
proof -
  obtain cs' cur' where r: "convoLoop xs [] [] None = (cs', cur')"
    by (cases "convoLoop xs [] [] None")
  from convoLoop_flags[OF r] have
    "conversationFlags (if length cur' > 0 then cs' @ [cur'] else cs') = initiatorFlags xs None"
    "concat (if length cur' > 0 then cs' @ [cur'] else cs') = xs"
    "[] \<notin> set cs'"
    by (simp_all add: conversationFlags_def)
  with r show "conversationFlags (splitConversations xs) = starterFlags xs"
    "concat (splitConversations xs) = xs" "[] \<notin> set (splitConversations xs)"
    by (auto simp: splitConversations_def initiatorFlags_starterFlags)
qed

lemma starterFlags_boundaryFlags: "starterFlags xs = boundaryFlags xs"
proof (rule nth_equalityI)
  show "length (starterFlags xs) = length (boundaryFlags xs)"
    by (simp add: length_starterFlags boundaryFlags_def)
next
  fix i assume "i < length (starterFlags xs)"
  then have i: "i < length xs" by (simp add: length_starterFlags)
  show "starterFlags xs ! i = boundaryFlags xs ! i"
  proof (cases "i = 0")
    case True
    with i show ?thesis
      by (cases xs) (auto simp: boundaryFlags_def conversationBoundary_def simp del: upt_Suc)
  next
    case False
    with i starterFlags_nth[of i xs] show ?thesis
      by (simp add: boundaryFlags_def conversationBoundary_def isNewConversation_def)
  qed
qed

lemma count_conversationFlags:
  "[] \<notin> set cs \<Longrightarrow> length (filter (\<lambda>b. b) (conversationFlags cs)) = length cs"
proof (induction cs)
  case Nil
  then show ?case by (simp add: conversationFlags_def)
next
  case (Cons c cs)
  then obtain m rest where c: "c = m # rest" by (cases c) auto
  have "conversationFlags (c # cs) = (True # map (\<lambda>_. False) rest) @ conversationFlags cs"
    by (simp add: conversationFlags_def c)
  moreover have "filter (\<lambda>b. b) (map (\<lambda>_. False) rest) = []"
    by (induction rest) auto
  ultimately show ?case using Cons by simp
qed

lemma length_flagged:
  "length xs = length fs \<Longrightarrow> length (flagged xs fs) = length (filter (\<lambda>b. b) fs)"
  by (induction xs fs rule: list_induct2) (auto simp: flagged_def)

lemma total_analyzeConversationLengths:
  "total (analyzeConversationLengths ms) = length (splitConversations (sortByTimestamp ms))"
  by (simp add: analyzeConversationLengths_def Let_def)

text \<open>
  C3. The starter-detection, conversation-length and initiator-pattern analyzers take
  the same boundary decision at every position of the sorted sequence: the decision of
  each equals \<open>boundaryFlags\<close>, where a position after the first is a boundary exactly
  when the gap in front of it exceeds two hours (a gap of exactly two hours is not).
  The starter counts and the initiator patterns are the folds over the flagged messages,
  the conversations partition the sorted sequence at the flagged positions, and their
  number is the number of flagged messages.
\<close>

theorem conversation_boundary_shared:
  "starterFlags (sortByTimestamp ms) = boundaryFlags (sortByTimestamp ms) \<and>
   conversationFlags (splitConversations (sortByTimestamp ms)) = boundaryFlags (sortByTimestamp ms) \<and>
   initiatorFlags (sortByTimestamp ms) None = boundaryFlags (sortByTimestamp ms) \<and>
   concat (splitConversations (sortByTimestamp ms)) = sortByTimestamp ms \<and>
   calculateConversationStarters ms ps =
     foldl (\<lambda>ps m. modifyParticipant (participant m) startConversation ps) ps
       (flagged (sortByTimestamp ms) (boundaryFlags (sortByTimestamp ms))) \<and>
   getConversationInitiatorPatterns ms ps =
     foldl (\<lambda>patterns m. recordInitiator m patterns) (initialPatterns ps)
       (flagged (sortByTimestamp ms) (boundaryFlags (sortByTimestamp ms))) \<and>
   total (analyzeConversationLengths ms)
     = length (flagged (sortByTimestamp ms) (boundaryFlags (sortByTimestamp ms)))"
proof -
  let ?s = "sortByTimestamp ms"
  have 1: "starterFlags ?s = boundaryFlags ?s" by (rule starterFlags_boundaryFlags)
  have 2: "conversationFlags (splitConversations ?s) = boundaryFlags ?s"
    using splitConversations_flags(1)[of ?s] 1 by simp
  have 3: "initiatorFlags ?s None = boundaryFlags ?s"
    using initiatorFlags_starterFlags[of ?s] 1 by simp
  have 4: "concat (splitConversations ?s) = ?s" by (rule splitConversations_flags(2))
  have 5: "calculateConversationStarters ms ps =
     foldl (\<lambda>ps m. modifyParticipant (participant m) startConversation ps) ps
       (flagged ?s (boundaryFlags ?s))"
    using calculateConversationStarters_flagged[of ms ps] 1 by simp
  have 6: "getConversationInitiatorPatterns ms ps =
     foldl (\<lambda>patterns m. recordInitiator m patterns) (initialPatterns ps)
       (flagged ?s (boundaryFlags ?s))"
    using getConversationInitiatorPatterns_flagged[of ms ps] 3 by simp
  have "length (flagged ?s (boundaryFlags ?s)) = length (filter (\<lambda>b. b) (boundaryFlags ?s))"
    by (rule length_flagged) (simp add: boundaryFlags_def)
  also have "\<dots> = length (splitConversations ?s)"
    using count_conversationFlags[OF splitConversations_flags(3), of ?s] 2 by simp
  finally have 7: "total (analyzeConversationLengths ms)
     = length (flagged ?s (boundaryFlags ?s))"
    by (simp add: total_analyzeConversationLengths)
  from 1 2 3 4 5 6 7 show ?thesis by blast
qed

theorem conversation_boundary_shared_witness:
  "starterFlags (sortByTimestamp exampleGaps) = [True, False, True] \<and>
   conversationFlags (splitConversations (sortByTimestamp exampleGaps)) = [True, False, True] \<and>
   initiatorFlags (sortByTimestamp exampleGaps) None = [True, False, True] \<and>
   gapBefore (sortByTimestamp exampleGaps) 1 = 2 * 60 * 60 * 1000 \<and>
   gapBefore (sortByTimestamp exampleGaps) 2 = 2 * 60 * 60 * 1000 + 1"
proof -
  have b: "boundaryFlags (sortByTimestamp exampleGaps) = [True, False, True]"
    by code_simp
  have g: "gapBefore (sortByTimestamp exampleGaps) 1 = 2 * 60 * 60 * 1000"
    "gapBefore (sortByTimestamp exampleGaps) 2 = 2 * 60 * 60 * 1000 + 1"
    by code_simp+
  from conversation_boundary_shared[of exampleGaps "[]"] b g show ?thesis by simp
qed

section \<open>Frame of \<open>addMessage\<close> on media and empty messages\<close>

text \<open>
  C10. Adding a message whose media flag is set or whose content is empty increments
  the message count and appends the message to the stored list, and changes nothing
  else: the word, letter and emoji counts, the emoji histogram, the per-message word and
  character length sequences and the question, exclamation and all-caps counters are
  as before.
\<close>

theorem addMessage_media_or_empty_frame:
  assumes "isMedia m \<or> content m = []"
  shows "addMessage emojiMatch m p
           = p\<lparr>messageCount := messageCount p + 1, messages := messages p @ [m]\<rparr> \<and>
         messageCount (addMessage emojiMatch m p) = messageCount p + 1 \<and>
         messages (addMessage emojiMatch m p) = messages p @ [m] \<and>
         wordCount (addMessage emojiMatch m p) = wordCount p \<and>
         letterCount (addMessage emojiMatch m p) = letterCount p \<and>
         emojiCount (addMessage emojiMatch m p) = emojiCount p \<and>
         topEmojis (addMessage emojiMatch m p) = topEmojis p \<and>
         messageLengths (addMessage emojiMatch m p) = messageLengths p \<and>
         characterLengths (addMessage emojiMatch m p) = characterLengths p \<and>
         questionCount (addMessage emojiMatch m p) = questionCount p \<and>
         exclamationCount (addMessage emojiMatch m p) = exclamationCount p \<and>
         allCapsCount (addMessage emojiMatch m p) = allCapsCount p"
proof -
  from assms have "addMessage emojiMatch m p
      = p\<lparr>messageCount := messageCount p + 1, messages := messages p @ [m]\<rparr>"
    by (auto simp: addMessage_def Let_def)
  then show ?thesis by simp
qed

theorem addMessage_media_or_empty_frame_witness:
  "(isMedia exampleMedia \<or> content exampleMedia = []) \<and>
   addMessage (\<lambda>t. []) exampleMedia (newParticipantData ''Alice'')
     = (newParticipantData ''Alice'')\<lparr>messageCount := 1, messages := [exampleMedia]\<rparr> \<and>
   wordCount (addMessage (\<lambda>t. []) exampleMedia (newParticipantData ''Alice'')) = 0 \<and>
   messageLengths (addMessage (\<lambda>t. []) exampleMedia (newParticipantData ''Alice'')) = []"
proof -
  have h: "isMedia exampleMedia \<or> content exampleMedia = []"
    by (simp add: exampleMedia_def)
  from addMessage_media_or_empty_frame[OF h, of "\<lambda>t. []" "newParticipantData ''Alice''"] h
  show ?thesis by (simp add: newParticipantData_def)
qed

section \<open>Finite results of the number operations\<close>










section \<open>Properties of the relationship-health score\<close>










section \<open>The activity trend on short transcripts\<close>

lemma analyzeActivityTrend_example:
  "percentageChange (analyzeActivityTrend [exampleAlice, exampleBob]) = NaN"
  by code_simp

lemma analyzeActivityTrend_single:
  "percentageChange (analyzeActivityTrend [m]) = NaN \<and>
   trend (analyzeActivityTrend [m]) = ''stable'' \<and>
   map_option (avgPerDay \<circ> fst) (comparison (analyzeActivityTrend [m])) = Some PosInf \<and>
   map_option (avgPerDay \<circ> snd) (comparison (analyzeActivityTrend [m])) = Some PosInf"
  by (simp add: analyzeActivityTrend_def sortByTimestamp_def daysBetween_def Let_def
      ofNat_def ofInt_def jsub_def jgt_def signedInf_def)

text \<open>
  C1. The division by the first-period average is not guarded. For an index holding a
  single message both periods span zero days, both averages are \<open>Infinity\<close>, and the
  returned percentage change is \<open>NaN\<close> (classified stable); for the two-message
  transcript of the end-to-end example, five minutes apart, the second period is empty
  and the percentage change is \<open>NaN\<close> as well.
\<close>

theorem analyzeActivityTrend_propagates_NaN:
  "percentageChange (analyzeActivityTrend [m]) = NaN \<and>
   trend (analyzeActivityTrend [m]) = ''stable'' \<and>
   map_option (avgPerDay \<circ> fst) (comparison (analyzeActivityTrend [m])) = Some PosInf \<and>
   map_option (avgPerDay \<circ> snd) (comparison (analyzeActivityTrend [m])) = Some PosInf \<and>
   percentageChange (analyzeActivityTrend [exampleAlice, exampleBob]) = NaN"
  using analyzeActivityTrend_single[of m] analyzeActivityTrend_example by simp


lemma hd_sortByTimestamp_le:
  assumes "ms \<noteq> []" and "m \<in> set ms"
  shows "timestamp (hd (sortByTimestamp ms)) \<le> timestamp m"
proof -
  let ?s = "sortByTimestamp ms"
  from assms have "m \<in> set ?s" by (simp add: sortByTimestamp_def)
  then obtain i where i: "i < length ?s" "?s ! i = m" by (auto simp: in_set_conv_nth)
  then have "?s \<noteq> []" by auto
  then have "hd ?s = ?s ! 0" by (simp add: hd_conv_nth)
  with sortByTimestamp_mono[of 0 i ms] i show ?thesis by simp
qed

lemma jdiv_positive_count_nonzero: "0 < n \<Longrightarrow> jdiv (ofNat n) (ofInt d) \<noteq> Fin 0"
  by (simp add: ofNat_def ofInt_def signedInf_def)

lemma daysBetween_nonneg: "a \<le> b \<Longrightarrow> 0 \<le> daysBetween a b"
  by (simp add: daysBetween_def msPerDay_def)

lemma analyzeActivityTrend_first_period:
  "ms \<noteq> [] \<Longrightarrow>
   \<exists>f s. comparison (analyzeActivityTrend ms) = Some (f, s) \<and>
     avgPerDay f = jdiv (ofNat (periodMessages f)) (ofInt (periodDays f)) \<and>
     startDate f = timestamp (hd (sortByTimestamp ms)) \<and>
     periodMessages f =
       length (filter (\<lambda>m. timestamp m \<ge> startDate f \<and> timestamp m \<le> endDate f)
                 (sortByTimestamp ms)) \<and>
     endDate f =
       (if daysBetween (startDate f) (timestamp (last (sortByTimestamp ms))) < 60
        then startDate f +
          \<lfloor>(of_int (daysBetween (startDate f) (timestamp (last (sortByTimestamp ms)))) :: rat)
             / 2 * 24 * 60 * 60 * 1000\<rfloor>
        else startDate f + 30 * 24 * 60 * 60 * 1000)"
  by (simp add: analyzeActivityTrend_def Let_def)

lemma analyzeActivityTrend_first_average_nonzero:
  assumes "ms \<noteq> []"
  shows "\<exists>f s. comparison (analyzeActivityTrend ms) = Some (f, s) \<and>
           0 < periodMessages f \<and> avgPerDay f \<noteq> Fin 0"
proof -
  let ?s = "sortByTimestamp ms"
  from analyzeActivityTrend_first_period[OF assms] obtain f s where
    c: "comparison (analyzeActivityTrend ms) = Some (f, s)" and
    avg: "avgPerDay f = jdiv (ofNat (periodMessages f)) (ofInt (periodDays f))" and
    st: "startDate f = timestamp (hd ?s)" and
    n: "periodMessages f =
       length (filter (\<lambda>m. timestamp m \<ge> startDate f \<and> timestamp m \<le> endDate f) ?s)" and
    en: "endDate f =
       (if daysBetween (startDate f) (timestamp (last ?s)) < 60
        then startDate f +
          \<lfloor>(of_int (daysBetween (startDate f) (timestamp (last ?s))) :: rat)
             / 2 * 24 * 60 * 60 * 1000\<rfloor>
        else startDate f + 30 * 24 * 60 * 60 * 1000)"
    by blast
  have "length ?s = length ms" by (simp add: sortByTimestamp_def)
  with assms have ne: "?s \<noteq> []" by auto
  then have "last ?s \<in> set ms" using last_in_set[OF ne] by (simp add: sortByTimestamp_def)
  from hd_sortByTimestamp_le[OF assms this] st
  have "0 \<le> daysBetween (startDate f) (timestamp (last ?s))"
    by (simp add: daysBetween_nonneg)
  then have "0 \<le> \<lfloor>(of_int (daysBetween (startDate f) (timestamp (last ?s))) :: rat)
             / 2 * 24 * 60 * 60 * 1000\<rfloor>" by simp
  with en have "startDate f \<le> endDate f" by (simp split: if_splits)
  moreover have "hd ?s \<in> set ?s" using ne by simp
  ultimately have "hd ?s \<in> set (filter (\<lambda>m. timestamp m \<ge> startDate f \<and> timestamp m \<le> endDate f) ?s)"
    using st by simp
  then have pos: "0 < periodMessages f" unfolding n by (rule length_pos_if_in_set)
  from jdiv_positive_count_nonzero[OF pos] avg have "avgPerDay f \<noteq> Fin 0" by simp
  with c pos show ?thesis by blast
qed

section \<open>Properties of streak detection\<close>






lemma runsFrom_hd: "run \<noteq> [] \<Longrightarrow> hd (hd (runsFrom run rest)) = hd run"
  by (induction rest arbitrary: run) auto

lemma runsFrom_hd_last:
  "run \<noteq> [] \<Longrightarrow> daysDiff (last run) d \<noteq> 1 \<Longrightarrow>
   daysDiff (last run) (hd (hd (runsFrom [d] rest))) \<noteq> 1"
  by (simp add: runsFrom_hd)

















section \<open>Properties of the line grammars and of timestamp parsing\<close>

lemma take_drop_prefix: "take n t @ drop (length (take n t)) (t @ d) = t @ d"
proof (cases "n \<le> length t")
  case True
  then have "drop (length (take n t)) (t @ d) = drop n t @ d" by (simp add: min_def)
  then have "take n t @ drop (length (take n t)) (t @ d) = (take n t @ drop n t) @ d" by simp
  then show ?thesis by (simp only: append_take_drop_id)
next
  case False
  then show ?thesis by simp
qed

lemma take_takeWhile_prefix: "take n (takeWhile P s) @ drop (length (take n (takeWhile P s))) s = s"
  using take_drop_prefix[of n "takeWhile P s" "dropWhile P s"] by simp

lemma digitsBetween_Some:
  assumes "digitsBetween lo hi s = Some (ds, r)" and "0 < lo"
  shows "digitString ds \<and> lo \<le> length ds \<and> length ds \<le> hi \<and> s = ds @ r"
proof -
  from assms(1) have ds: "ds = take hi (takeWhile isDigit s)" and r: "r = drop (length ds) s"
    and lo: "lo \<le> length ds"
    by (auto simp: digitsBetween_def Let_def split: if_splits)
  have "set ds \<subseteq> set (takeWhile isDigit s)" unfolding ds by (rule set_take_subset)
  then have "\<forall>c \<in> set ds. isDigit c" by (auto dest: set_takeWhileD)
  moreover from lo assms(2) have "ds \<noteq> []" by auto
  moreover have "length ds \<le> hi" unfolding ds by simp
  moreover have "s = ds @ r" unfolding r ds using take_takeWhile_prefix[of hi isDigit s] by simp
  ultimately show ?thesis using lo by (simp add: digitString_def)
qed

lemma lit_Some: "lit c s = Some r \<longleftrightarrow> s = c # r"
  by (auto simp: lit_def split: list.splits)

lemma slashDate_Some:
  assumes "slashDate s = Some (dateStr, r)"
  shows "\<exists>a b c. digitString a \<and> digitString b \<and> digitString c \<and>
           length c \<ge> 2 \<and> length c \<le> 4 \<and>
           dateStr = a @ ''/'' @ b @ ''/'' @ c \<and> s = dateStr @ r"
proof -
  from assms obtain a r1 r2 b r3 r4 c where
    a: "digitsBetween 1 2 s = Some (a, r1)" and "lit CHR ''/'' r1 = Some r2" and
    b: "digitsBetween 1 2 r2 = Some (b, r3)" and "lit CHR ''/'' r3 = Some r4" and
    c: "digitsBetween 2 4 r4 = Some (c, r)" and d: "dateStr = a @ ''/'' @ b @ ''/'' @ c"
    by (auto simp: slashDate_def bind_eq_Some_conv split: prod.splits)
  then have "r1 = CHR ''/'' # r2" "r3 = CHR ''/'' # r4" by (simp_all add: lit_Some)
  with digitsBetween_Some[OF a] digitsBetween_Some[OF b] digitsBetween_Some[OF c] d
  show ?thesis by (intro exI[of _ a] exI[of _ b] exI[of _ c]) simp
qed

lemma isoDate_Some:
  assumes "isoDate s = Some (dateStr, r)"
  shows "\<exists>a b c. digitString a \<and> digitString b \<and> digitString c \<and>
           length a = 4 \<and>
           dateStr = a @ ''-'' @ b @ ''-'' @ c \<and> s = dateStr @ r"
proof -
  from assms obtain a r1 r2 b r3 r4 c where
    a: "digitsBetween 4 4 s = Some (a, r1)" and "lit CHR ''-'' r1 = Some r2" and
    b: "digitsBetween 1 2 r2 = Some (b, r3)" and "lit CHR ''-'' r3 = Some r4" and
    c: "digitsBetween 1 2 r4 = Some (c, r)" and d: "dateStr = a @ ''-'' @ b @ ''-'' @ c"
    by (auto simp: isoDate_def bind_eq_Some_conv split: prod.splits)
  then have "r1 = CHR ''-'' # r2" "r3 = CHR ''-'' # r4" by (simp_all add: lit_Some)
  with digitsBetween_Some[OF a] digitsBetween_Some[OF b] digitsBetween_Some[OF c] d
  show ?thesis by (intro exI[of _ a] exI[of _ b] exI[of _ c]) simp
qed

lemma splitOn_nonempty: "splitOn sep s \<noteq> []"
  by (induction s) (auto split: list.splits)

lemma splitOn_no_sep: "sep \<notin> set a \<Longrightarrow> splitOn sep a = [a]"
  by (induction a) auto

lemma splitOn_append_sep:
  "sep \<notin> set a \<Longrightarrow> splitOn sep (a @ sep # rest) = a # splitOn sep rest"
proof (induction a)
  case Nil
  then show ?case by simp
next
  case (Cons x a)
  then show ?case by (cases "splitOn sep rest") (auto simp: splitOn_nonempty)
qed

lemma isDigit_cases: "isDigit c \<Longrightarrow> c \<in> set ''0123456789''"
  by (simp add: isDigit_def)

lemma toUpperChar_digit:
  "toUpperChar CHR ''0'' = CHR ''0''" "toUpperChar CHR ''1'' = CHR ''1''"
  "toUpperChar CHR ''2'' = CHR ''2''" "toUpperChar CHR ''3'' = CHR ''3''"
  "toUpperChar CHR ''4'' = CHR ''4''" "toUpperChar CHR ''5'' = CHR ''5''"
  "toUpperChar CHR ''6'' = CHR ''6''" "toUpperChar CHR ''7'' = CHR ''7''"
  "toUpperChar CHR ''8'' = CHR ''8''" "toUpperChar CHR ''9'' = CHR ''9''"
  "toUpperChar CHR '':'' = CHR '':''"
  by code_simp+

lemma isDigit_not_space: "isDigit c \<Longrightarrow> \<not> isSpace c"
  by (auto simp: isDigit_def isSpace_def)

lemma isDigit_facts:
  "isDigit c \<Longrightarrow>
     c \<noteq> CHR ''/'' \<and> c \<noteq> CHR ''-'' \<and> c \<noteq> CHR '':'' \<and> \<not> isSpace c \<and>
     c \<noteq> CHR ''+'' \<and> toUpperChar c = c \<and>
     c \<noteq> CHR ''A'' \<and> c \<noteq> CHR ''P'' \<and> c \<noteq> CHR ''M''"
  using isDigit_cases[of c] isDigit_not_space[of c] toUpperChar_digit by auto

lemma digitString_no_sep:
  "digitString ds \<Longrightarrow>
     CHR ''/'' \<notin> set ds \<and> CHR ''-'' \<notin> set ds \<and> CHR '':'' \<notin> set ds"
  using isDigit_facts by (auto simp: digitString_def)

lemma parseInt_digitString:
  assumes "digitString ds"
  shows "parseInt ds = Some (int (decimalValue ds))"
proof -
  from assms obtain c cs where ds: "ds = c # cs" and c: "isDigit c"
    by (cases ds) (auto simp: digitString_def)
  from assms have all: "takeWhile isDigit ds = ds" by (simp add: digitString_def)
  from c isDigit_facts[of c] have "dropWhile isSpace ds = ds" "c \<noteq> CHR ''-''" "c \<noteq> CHR ''+''"
    by (simp_all add: ds)
  with all ds show ?thesis by (simp add: parseInt_def Let_def)
qed

lemma digitVal_le_9: "digitVal c \<le> 9"
  by (simp add: digitVal_def)

lemma decimalValue_two_digits: "length ds = 2 \<Longrightarrow> decimalValue ds < 100"
proof -
  assume "length ds = 2"
  then obtain a b where "ds = [a, b]"
    by (cases ds; cases "tl ds") auto
  with digitVal_le_9[of a] digitVal_le_9[of b] show ?thesis
    by (simp add: decimalValue_def)
qed

lemma strIncludes_single: "strIncludes s [ch] \<longleftrightarrow> ch \<in> set s"
  by (induction s) (auto simp: startsWith_def)

lemma parseDatePart_slash:
  assumes "digitString a" "digitString b" "digitString c" "formatType \<noteq> Iso"
  shows "parseDatePart (a @ ''/'' @ b @ ''/'' @ c) formatType =
     Inr (Some (if int (decimalValue c) < 100 then int (decimalValue c) + 2000
               else int (decimalValue c)),
          Some (int (decimalValue b) - 1),
          Some (int (decimalValue a)))"
proof -
  from assms(1-3) have no: "CHR ''-'' \<notin> set (a @ ''/'' @ b @ ''/'' @ c)"
    using digitString_no_sep by auto
  have split: "splitOn CHR ''/'' (a @ ''/'' @ b @ ''/'' @ c) = [a, b, c]"
    using assms(1-3) digitString_no_sep
    by (simp add: splitOn_append_sep splitOn_no_sep)
  show ?thesis
    unfolding parseDatePart_def Let_def split
    using no assms by (simp add: strIncludes_single parseInt_digitString)
qed

lemma parseDatePart_iso:
  assumes "digitString a" "digitString b" "digitString c"
  shows "parseDatePart (a @ ''-'' @ b @ ''-'' @ c) Iso =
     Inr (Some (int (decimalValue a)), Some (int (decimalValue b) - 1),
          Some (int (decimalValue c)))"
proof -
  have split: "splitOn CHR ''-'' (a @ ''-'' @ b @ ''-'' @ c) = [a, b, c]"
    using assms digitString_no_sep
    by (simp add: splitOn_append_sep splitOn_no_sep)
  show ?thesis
    unfolding parseDatePart_def Let_def split
    using assms by (simp add: parseInt_digitString)
qed

lemma toUpperChar_fixed:
  "toUpperChar CHR ''A'' = CHR ''A''" "toUpperChar CHR ''P'' = CHR ''P''"
  "toUpperChar CHR ''M'' = CHR ''M''" "toUpperChar CHR '' '' = CHR '' ''"
  "toUpperChar (CHR 0x09) = CHR 0x09" "toUpperChar (CHR 0x0A) = CHR 0x0A"
  "toUpperChar (CHR 0x0B) = CHR 0x0B" "toUpperChar (CHR 0x0C) = CHR 0x0C"
  "toUpperChar (CHR 0x0D) = CHR 0x0D"
  by (simp_all add: toUpperChar_def)

lemma isSpace_cases:
  "isSpace c \<Longrightarrow> c = CHR '' '' \<or> c = CHR 0x09 \<or> c = CHR 0x0A \<or> c = CHR 0x0B \<or>
     c = CHR 0x0C \<or> c = CHR 0x0D"
  by (simp add: isSpace_def)

lemma toUpperChar_space: "isSpace c \<Longrightarrow> toUpperChar c = c"
proof -
  assume "isSpace c"
  from isSpace_cases[OF this] show ?thesis
    by (elim disjE) (simp_all only: toUpperChar_fixed)
qed

lemma colon_not_space: "\<not> isSpace CHR '':''"
  by (simp add: isSpace_def)

lemma timeCore_char:
  assumes "isDigit c \<or> c = CHR '':''"
  shows "toUpperChar c = c \<and> \<not> isSpace c \<and> c \<noteq> CHR ''A'' \<and> c \<noteq> CHR ''P''"
proof (cases "isDigit c")
  case True
  from isDigit_facts[OF this] show ?thesis by simp
next
  case False
  with assms have "c = CHR '':''" by simp
  then show ?thesis by (simp add: toUpperChar_digit(11) colon_not_space)
qed

lemma toUpperCase_timeCore: "timeCore s \<Longrightarrow> toUpperCase s = s"
  unfolding timeCore_def toUpperCase_def
  by (induction s) (auto simp: timeCore_char)

lemma toUpperCase_spaces: "\<forall>c \<in> set ws. isSpace c \<Longrightarrow> toUpperCase ws = ws"
  unfolding toUpperCase_def by (induction ws) (auto simp: toUpperChar_space)

lemma toUpperCase_append: "toUpperCase (a @ b) = toUpperCase a @ toUpperCase b"
  by (simp add: toUpperCase_def)

lemma strIncludes_hd: "strIncludes s (p # ps) \<Longrightarrow> p \<in> set s"
proof (induction s)
  case Nil
  then show ?case by simp
next
  case (Cons c s)
  then show ?case by (auto simp: startsWith_def)
qed

lemma strIncludes_suffix: "strIncludes (pre @ p) p"
proof (induction pre)
  case Nil
  show ?case by (cases p) (auto simp: startsWith_def)
next
  case (Cons c pre)
  then show ?case by simp
qed

lemma removeAmPm_timeCore: "timeCore pre \<Longrightarrow> removeAmPm (pre @ rest) = pre @ removeAmPm rest"
proof (induction pre)
  case Nil
  then show ?case by simp
next
  case (Cons c pre)
  then have c: "isDigit c \<or> c = CHR '':''" and pre: "timeCore pre"
    by (auto simp: timeCore_def)
  from timeCore_char[OF c] have ns: "\<not> isSpace c" and up: "toUpperChar c \<noteq> CHR ''A''"
    "toUpperChar c \<noteq> CHR ''P''" by auto
  have "removeAmPm (c # (pre @ rest)) = c # removeAmPm (pre @ rest)"
    using ns up by (simp split: list.splits)
  with Cons.IH[OF pre] show ?case by simp
qed

lemma removeAmPm_marker:
  assumes "\<forall>c \<in> set ws. isSpace c" and "a = CHR ''A'' \<or> a = CHR ''P''"
  shows "removeAmPm (ws @ [a, CHR ''M'']) = []"
proof -
  have na: "\<not> isSpace a" using assms(2) by (auto simp: isSpace_def)
  have up: "toUpperChar a = CHR ''A'' \<or> toUpperChar a = CHR ''P''" "toUpperChar CHR ''M'' = CHR ''M''"
    using assms(2) toUpperChar_fixed by auto
  have dw: "dropWhile isSpace (ws @ [a, CHR ''M'']) = [a, CHR ''M'']"
    using assms(1) na by (simp add: dropWhile_append)
  show ?thesis
  proof (cases ws)
    case Nil
    with dw up show ?thesis by simp
  next
    case (Cons w ws')
    with dw have "dropWhile isSpace (w # (ws' @ [a, CHR ''M''])) = [a, CHR ''M'']" by simp
    with up Cons show ?thesis by (simp del: dropWhile.simps)
  qed
qed

lemma trim_id: "s \<noteq> [] \<Longrightarrow> \<not> isSpace (hd s) \<Longrightarrow> \<not> isSpace (last s) \<Longrightarrow> trim s = s"
proof -
  assume s: "s \<noteq> []" and h: "\<not> isSpace (hd s)" and l: "\<not> isSpace (last s)"
  from s h have 1: "dropWhile isSpace s = s" by (cases s) auto
  from s l have "\<not> isSpace (hd (rev s))" by (simp add: hd_rev)
  with s have 2: "dropWhile isSpace (rev s) = rev s" by (cases "rev s") auto
  show ?thesis by (simp add: trim_def 1 2)
qed

lemma isSpace_not_marker: "isSpace c \<Longrightarrow> c \<noteq> CHR ''A'' \<and> c \<noteq> CHR ''P'' \<and> c \<noteq> CHR ''M''"
  using isSpace_cases[of c] by auto

lemma optSeconds_shape:
  assumes "optSeconds s = (sec, r)"
  shows "\<exists>seconds. (case seconds of None \<Rightarrow> True | Some ss \<Rightarrow> digitString ss) \<and>
           sec = secondsText seconds \<and> s = sec @ r"
proof (cases "lit CHR '':'' s")
  case None
  with assms have "sec = []" "r = s" by (simp_all add: optSeconds_def)
  then show ?thesis by (intro exI[of _ None]) (simp add: secondsText_def)
next
  case (Some r1)
  then have s: "s = CHR '':'' # r1" by (simp add: lit_Some)
  show ?thesis
  proof (cases "digitsBetween 2 2 r1")
    case None
    with Some assms have "sec = []" "r = s" by (simp_all add: optSeconds_def)
    then show ?thesis by (intro exI[of _ None]) (simp add: secondsText_def)
  next
    case inner: (Some p)
    obtain ds r' where p: "p = (ds, r')" by (cases p)
    with inner Some assms have sr: "sec = CHR '':'' # ds" "r = r'" by (simp_all add: optSeconds_def)
    from digitsBetween_Some[OF inner[unfolded p]] have "digitString ds" "r1 = ds @ r'" by simp_all
    with sr s show ?thesis by (intro exI[of _ "Some ds"]) (simp add: secondsText_def)
  qed
qed

lemma optAmPm_shape:
  assumes "optAmPm s = (ampm, r)"
  shows "\<exists>ws marker. (\<forall>c \<in> set ws. isSpace c) \<and>
           (marker = None \<or> marker = Some CHR ''A'' \<or> marker = Some CHR ''P'') \<and>
           ampm = ampmText ws marker \<and> s = ampm @ r"
proof -
  have none: ?thesis if "ampm = []" "r = s"
    using that by (intro exI[of _ "[]"] exI[of _ None]) (simp add: ampmText_def)
  show ?thesis
  proof (cases "dropWhile isSpace s")
    case Nil
    with assms show ?thesis by (intro none) (simp_all add: optAmPm_def)
  next
    case (Cons a rest)
    show ?thesis
    proof (cases rest)
      case Nil
      with Cons assms show ?thesis by (intro none) (simp_all add: optAmPm_def)
    next
      case inner: (Cons m r')
      show ?thesis
      proof (cases "(a = CHR ''A'' \<or> a = CHR ''P'') \<and> m = CHR ''M''")
        case False
        with Cons inner assms show ?thesis by (intro none) (auto simp: optAmPm_def)
      next
        case True
        with Cons inner assms have ar: "ampm = takeWhile isSpace s @ [a, m]" "r = r'"
          by (auto simp: optAmPm_def)
        have "s = takeWhile isSpace s @ dropWhile isSpace s" by simp
        with Cons inner have s: "s = takeWhile isSpace s @ [a, m] @ r'" by simp
        have ws: "\<forall>c \<in> set (takeWhile isSpace s). isSpace c" by (auto dest: set_takeWhileD)
        from True ar s ws show ?thesis
          by (intro exI[of _ "takeWhile isSpace s"] exI[of _ "Some a"]) (auto simp: ampmText_def)
      qed
    qed
  qed
qed

lemma timeOfDay_shape:
  assumes "timeOfDay withSeconds s = Some (timeStr, r)"
  shows "\<exists>h mi seconds ws marker.
           digitString h \<and> digitString mi \<and>
           (case seconds of None \<Rightarrow> True | Some ss \<Rightarrow> digitString ss) \<and>
           (\<forall>c \<in> set ws. isSpace c) \<and>
           (marker = None \<or> marker = Some CHR ''A'' \<or> marker = Some CHR ''P'') \<and>
           timeStr = h @ '':'' @ mi @ secondsText seconds @ ampmText ws marker \<and>
           s = timeStr @ r"
proof -
  obtain h r1 where h: "digitsBetween 1 2 s = Some (h, r1)"
    using assms by (cases "digitsBetween 1 2 s") (auto simp: timeOfDay_def)
  obtain r2 where l: "lit CHR '':'' r1 = Some r2"
    using assms h by (cases "lit CHR '':'' r1") (auto simp: timeOfDay_def)
  obtain mi r3 where mi: "digitsBetween 2 2 r2 = Some (mi, r3)"
    using assms h l by (cases "digitsBetween 2 2 r2") (auto simp: timeOfDay_def)
  obtain sec r4 where sec: "(if withSeconds then optSeconds r3 else ([], r3)) = (sec, r4)"
    by (cases "if withSeconds then optSeconds r3 else ([], r3)")
  obtain ampm r5 where ampm5: "optAmPm r4 = (ampm, r5)"
    by (cases "optAmPm r4")
  from assms h l mi sec ampm5 have t: "timeStr = h @ '':'' @ mi @ sec @ ampm" and "r = r5"
    by (simp_all add: timeOfDay_def Let_def)
  with ampm5 have ampm: "optAmPm r4 = (ampm, r)" by simp
  from l have r1: "r1 = CHR '':'' # r2" by (simp add: lit_Some)
  have "\<exists>seconds. (case seconds of None \<Rightarrow> True | Some ss \<Rightarrow> digitString ss) \<and>
           sec = secondsText seconds \<and> r3 = sec @ r4"
  proof (cases withSeconds)
    case True
    with sec show ?thesis by (intro optSeconds_shape) simp
  next
    case False
    with sec show ?thesis by (intro exI[of _ None]) (auto simp: secondsText_def)
  qed
  then obtain seconds where seconds:
    "case seconds of None \<Rightarrow> True | Some ss \<Rightarrow> digitString ss"
    "sec = secondsText seconds" "r3 = sec @ r4" by blast
  from optAmPm_shape[OF ampm] obtain ws marker where m:
    "\<forall>c \<in> set ws. isSpace c"
    "marker = None \<or> marker = Some CHR ''A'' \<or> marker = Some CHR ''P''"
    "ampm = ampmText ws marker" "r4 = ampm @ r" by blast
  from digitsBetween_Some[OF h] digitsBetween_Some[OF mi] r1 seconds m t
  show ?thesis
    by (intro exI[of _ h] exI[of _ mi] exI[of _ seconds] exI[of _ ws] exI[of _ marker]) simp
qed

lemma digitString_timeCore: "digitString ds \<Longrightarrow> timeCore ds"
  by (simp add: digitString_def timeCore_def)

lemma timeCore_append: "timeCore (a @ b) \<longleftrightarrow> timeCore a \<and> timeCore b"
  by (auto simp: timeCore_def)

lemma timeCore_colon: "timeCore (CHR '':'' # s) \<longleftrightarrow> timeCore s"
  by (auto simp: timeCore_def)

lemma timeCore_no_marker: "timeCore s \<Longrightarrow> CHR ''A'' \<notin> set s \<and> CHR ''P'' \<notin> set s"
  using timeCore_char by (auto simp: timeCore_def)

lemma digitString_ends: "digitString ds \<Longrightarrow> \<not> isSpace (hd ds) \<and> \<not> isSpace (last ds)"
proof -
  assume d: "digitString ds"
  then have "ds \<noteq> []" by (simp add: digitString_def)
  then have "hd ds \<in> set ds" "last ds \<in> set ds" by simp_all
  with d show ?thesis using isDigit_not_space by (auto simp: digitString_def)
qed

text \<open>The part of a time string in front of the AM/PM marker.\<close>

lemma timeCore_pre:
  assumes "digitString h" "digitString mi" "case seconds of None \<Rightarrow> True | Some ss \<Rightarrow> digitString ss"
  shows "timeCore (h @ '':'' @ mi @ secondsText seconds)"
    and "trim (h @ '':'' @ mi @ secondsText seconds) = h @ '':'' @ mi @ secondsText seconds"
    and "map parseInt (splitOn CHR '':'' (h @ '':'' @ mi @ secondsText seconds)) =
           (case seconds of
              None \<Rightarrow> [Some (numberOf h), Some (numberOf mi)]
            | Some ss \<Rightarrow> [Some (numberOf h), Some (numberOf mi), Some (numberOf ss)])"
proof -
  let ?pre = "h @ '':'' @ mi @ secondsText seconds"
  show "timeCore ?pre"
    using assms
    by (cases seconds) (simp_all add: timeCore_append timeCore_colon digitString_timeCore secondsText_def)
  have ne: "?pre \<noteq> []" using assms(1) by (simp add: digitString_def)
  have hd: "hd ?pre = hd h" using assms(1) by (simp add: digitString_def)
  have last: "last ?pre = (case seconds of None \<Rightarrow> last mi | Some ss \<Rightarrow> last ss)"
    using assms(2,3) by (cases seconds) (simp_all add: secondsText_def digitString_def)
  have "\<not> isSpace (hd ?pre)" unfolding hd using digitString_ends[OF assms(1)] by simp
  moreover have "\<not> isSpace (last ?pre)"
    unfolding last using digitString_ends[OF assms(2)] assms(3) digitString_ends
    by (cases seconds) auto
  ultimately show "trim ?pre = ?pre" using ne by (intro trim_id)
  show "map parseInt (splitOn CHR '':'' ?pre) =
           (case seconds of
              None \<Rightarrow> [Some (numberOf h), Some (numberOf mi)]
            | Some ss \<Rightarrow> [Some (numberOf h), Some (numberOf mi), Some (numberOf ss)])"
  proof (cases seconds)
    case None
    then have "splitOn CHR '':'' ?pre = [h, mi]"
      using assms digitString_no_sep
      by (simp add: secondsText_def splitOn_append_sep splitOn_no_sep)
    with None assms show ?thesis by (simp add: parseInt_digitString numberOf_def)
  next
    case (Some ss)
    then have "?pre = h @ CHR '':'' # mi @ CHR '':'' # ss" by (simp add: secondsText_def)
    then have "splitOn CHR '':'' ?pre = [h, mi, ss]"
      using assms Some digitString_no_sep
      by (simp add: splitOn_append_sep splitOn_no_sep)
    with Some assms show ?thesis by (simp add: parseInt_digitString numberOf_def)
  qed
qed

lemma toUpperCase_ampmText:
  assumes "\<forall>c \<in> set ws. isSpace c"
    and "marker = None \<or> marker = Some CHR ''A'' \<or> marker = Some CHR ''P''"
  shows "toUpperCase (ampmText ws marker) = ampmText ws marker"
proof (cases marker)
  case None
  then show ?thesis by (simp add: ampmText_def toUpperCase_def)
next
  case (Some a)
  with assms(2) have a: "toUpperChar a = a" using toUpperChar_fixed by auto
  have "toUpperCase (ws @ [a, CHR ''M'']) = toUpperCase ws @ [toUpperChar a, toUpperChar CHR ''M'']"
    by (simp add: toUpperCase_def)
  with a Some toUpperCase_spaces[OF assms(1)] show ?thesis
    by (simp add: ampmText_def toUpperChar_fixed)
qed

lemma set_ampmText:
  "set (ampmText ws marker) = (case marker of None \<Rightarrow> {} | Some a \<Rightarrow> set ws \<union> {a, CHR ''M''})"
  by (cases marker) (auto simp: ampmText_def)

lemma strIncludes_marker:
  assumes pre: "timeCore pre" and ws: "\<forall>c \<in> set ws. isSpace c"
    and marker: "marker = None \<or> marker = Some CHR ''A'' \<or> marker = Some CHR ''P''"
    and a: "a = CHR ''A'' \<or> a = CHR ''P''"
  shows "strIncludes (pre @ ampmText ws marker) [a, CHR ''M''] \<longleftrightarrow> marker = Some a"
proof
  assume "strIncludes (pre @ ampmText ws marker) [a, CHR ''M'']"
  from strIncludes_hd[OF this] have "a \<in> set pre \<or> a \<in> set (ampmText ws marker)" by simp
  moreover have "a \<notin> set pre" using timeCore_no_marker[OF pre] a by auto
  moreover have "a \<notin> set ws" using ws isSpace_not_marker a by auto
  ultimately have "a \<in> (case marker of None \<Rightarrow> {} | Some b \<Rightarrow> {b, CHR ''M''})"
    by (cases marker) (auto simp: set_ampmText)
  then show "marker = Some a" using a by (cases marker) auto
next
  assume "marker = Some a"
  then have "pre @ ampmText ws marker = (pre @ ws) @ [a, CHR ''M'']" by (simp add: ampmText_def)
  then show "strIncludes (pre @ ampmText ws marker) [a, CHR ''M'']"
    by (simp only: strIncludes_suffix)
qed

lemma removeAmPm_ampmText:
  assumes pre: "timeCore pre" and ws: "\<forall>c \<in> set ws. isSpace c"
    and marker: "marker = None \<or> marker = Some CHR ''A'' \<or> marker = Some CHR ''P''"
  shows "removeAmPm (pre @ ampmText ws marker) = pre"
proof -
  have "removeAmPm (ampmText ws marker) = []"
  proof (cases marker)
    case None
    then show ?thesis by (simp add: ampmText_def)
  next
    case (Some a)
    with marker have "a = CHR ''A'' \<or> a = CHR ''P''" by simp
    from removeAmPm_marker[OF ws this] Some show ?thesis by (simp add: ampmText_def)
  qed
  with removeAmPm_timeCore[OF pre, of "ampmText ws marker"] show ?thesis by simp
qed

lemma parseTimePart_unfold:
  assumes "toUpperCase t = t" and "removeAmPm t = pre" and "trim pre = pre"
    and "map parseInt (splitOn CHR '':'' pre) = parts" and "2 \<le> length parts"
  shows "parseTimePart t =
     Inr (if strIncludes t ''AM'' \<or> strIncludes t ''PM'' then
            (if strIncludes t ''PM'' \<and> parts ! 0 \<noteq> Some 12
             then map_option (\<lambda>h. h + 12) (parts ! 0)
             else if strIncludes t ''AM'' \<and> parts ! 0 = Some 12 then Some 0
             else parts ! 0)
          else parts ! 0,
          parts ! 1,
          if length parts = 3 then parts ! 2 else Some 0)"
  using assms(5) unfolding parseTimePart_def Let_def assms(1) assms(2) assms(3) assms(4)
  by simp

lemma parseTimePart_shape:
  assumes h: "digitString h" and mi: "digitString mi"
    and seconds: "case seconds of None \<Rightarrow> True | Some ss \<Rightarrow> digitString ss"
    and ws: "\<forall>c \<in> set ws. isSpace c"
    and marker: "marker = None \<or> marker = Some CHR ''A'' \<or> marker = Some CHR ''P''"
  shows "parseTimePart (h @ '':'' @ mi @ secondsText seconds @ ampmText ws marker) =
     Inr (Some (twelveHour marker (numberOf h)), Some (numberOf mi),
          Some (case seconds of None \<Rightarrow> 0 | Some ss \<Rightarrow> numberOf ss))"
proof -
  define pre where "pre = h @ '':'' @ mi @ secondsText seconds"
  define t where "t = pre @ ampmText ws marker"
  define parts where "parts = (case seconds of
              None \<Rightarrow> [Some (numberOf h), Some (numberOf mi)]
            | Some ss \<Rightarrow> [Some (numberOf h), Some (numberOf mi), Some (numberOf ss)])"
  note p = timeCore_pre[OF h mi seconds, folded pre_def parts_def]
  have up: "toUpperCase t = t"
    unfolding t_def toUpperCase_append
    by (simp only: toUpperCase_timeCore[OF p(1)] toUpperCase_ampmText[OF ws marker])
  have rm: "removeAmPm t = pre" unfolding t_def by (rule removeAmPm_ampmText[OF p(1) ws marker])
  have PM: "strIncludes t ''PM'' \<longleftrightarrow> marker = Some CHR ''P''"
    unfolding t_def using strIncludes_marker[OF p(1) ws marker, of "CHR ''P''"] by simp
  have AM: "strIncludes t ''AM'' \<longleftrightarrow> marker = Some CHR ''A''"
    unfolding t_def using strIncludes_marker[OF p(1) ws marker, of "CHR ''A''"] by simp
  have len: "2 \<le> length parts" unfolding parts_def by (cases seconds) simp_all
  have vals: "parts ! 0 = Some (numberOf h)" "parts ! 1 = Some (numberOf mi)"
    "(if length parts = 3 then parts ! 2 else Some 0)
       = Some (case seconds of None \<Rightarrow> 0 | Some ss \<Rightarrow> numberOf ss)"
    unfolding parts_def by (cases seconds; simp)+
  have "parseTimePart t =
     Inr (Some (twelveHour marker (numberOf h)), Some (numberOf mi),
          Some (case seconds of None \<Rightarrow> 0 | Some ss \<Rightarrow> numberOf ss))"
    unfolding parseTimePart_unfold[OF up rm p(2) p(3) len] PM AM vals
    using marker by (auto simp: twelveHour_def)
  then show ?thesis unfolding t_def pre_def by simp
qed

section \<open>Matched lines, continuation lines and the outcomes of parsing\<close>

lemma iosRegex_parts:
  assumes "iosRegex line = Some (dateStr, timeStr, nameGroup, contentGroup)"
  shows "(\<exists>s r. slashDate s = Some (dateStr, r)) \<and> (\<exists>s r. timeOfDay True s = Some (timeStr, r))"
proof -
  obtain r0 where r0: "lit CHR ''['' line = Some r0"
    using assms by (cases "lit CHR ''['' line") (auto simp: iosRegex_def)
  obtain d r1 where d: "slashDate r0 = Some (d, r1)"
    using assms r0 by (cases "slashDate r0") (auto simp: iosRegex_def)
  obtain r2 where r2: "lit CHR '','' r1 = Some r2"
    using assms r0 d by (cases "lit CHR '','' r1") (auto simp: iosRegex_def)
  obtain t r3 where t: "timeOfDay True (skipSpaces r2) = Some (t, r3)"
    using assms r0 d r2 by (cases "timeOfDay True (skipSpaces r2)") (auto simp: iosRegex_def)
  obtain r4 where r4: "lit CHR '']'' r3 = Some r4"
    using assms r0 d r2 t by (cases "lit CHR '']'' r3") (auto simp: iosRegex_def)
  obtain n c where nc: "nameAndContent r4 = Some (n, c)"
    using assms r0 d r2 t r4 by (cases "nameAndContent r4") (auto simp: iosRegex_def)
  from assms r0 d r2 t r4 nc have "dateStr = d" "timeStr = t" by (simp_all add: iosRegex_def)
  with d t show ?thesis by blast
qed

lemma isoRegex_parts:
  assumes "isoRegex line = Some (dateStr, timeStr, nameGroup, contentGroup)"
  shows "(\<exists>s r. isoDate s = Some (dateStr, r)) \<and> (\<exists>s r. timeOfDay True s = Some (timeStr, r))"
proof -
  obtain r0 where r0: "lit CHR ''['' line = Some r0"
    using assms by (cases "lit CHR ''['' line") (auto simp: isoRegex_def)
  obtain d r1 where d: "isoDate r0 = Some (d, r1)"
    using assms r0 by (cases "isoDate r0") (auto simp: isoRegex_def)
  obtain r2 where r2: "lit CHR '','' r1 = Some r2"
    using assms r0 d by (cases "lit CHR '','' r1") (auto simp: isoRegex_def)
  obtain t r3 where t: "timeOfDay True (skipSpaces r2) = Some (t, r3)"
    using assms r0 d r2 by (cases "timeOfDay True (skipSpaces r2)") (auto simp: isoRegex_def)
  obtain r4 where r4: "lit CHR '']'' r3 = Some r4"
    using assms r0 d r2 t by (cases "lit CHR '']'' r3") (auto simp: isoRegex_def)
  obtain n c where nc: "nameAndContent r4 = Some (n, c)"
    using assms r0 d r2 t r4 by (cases "nameAndContent r4") (auto simp: isoRegex_def)
  from assms r0 d r2 t r4 nc have "dateStr = d" "timeStr = t" by (simp_all add: isoRegex_def)
  with d t show ?thesis by blast
qed

lemma androidRegex_parts:
  assumes "androidRegex line = Some (dateStr, timeStr, nameGroup, contentGroup)"
  shows "(\<exists>s r. slashDate s = Some (dateStr, r)) \<and> (\<exists>s r. timeOfDay False s = Some (timeStr, r))"
proof -
  obtain d r1 where d: "slashDate line = Some (d, r1)"
    using assms by (cases "slashDate line") (auto simp: androidRegex_def)
  obtain r2 where r2: "lit CHR '','' r1 = Some r2"
    using assms d by (cases "lit CHR '','' r1") (auto simp: androidRegex_def)
  obtain t r3 where t: "timeOfDay False (skipSpaces r2) = Some (t, r3)"
    using assms d r2 by (cases "timeOfDay False (skipSpaces r2)") (auto simp: androidRegex_def)
  obtain r4 where r4: "lit CHR ''-'' (skipSpaces r3) = Some r4"
    using assms d r2 t by (cases "lit CHR ''-'' (skipSpaces r3)") (auto simp: androidRegex_def)
  obtain n c where nc: "nameAndContent r4 = Some (n, c)"
    using assms d r2 t r4 by (cases "nameAndContent r4") (auto simp: androidRegex_def)
  from assms d r2 t r4 nc have "dateStr = d" "timeStr = t" by (simp_all add: androidRegex_def)
  with d t show ?thesis by blast
qed

lemma matchLine_parts:
  assumes "matchLine line = Some (formatType, dateStr, timeStr, nameGroup, contentGroup)"
  shows "(\<exists>s r. (if formatType = Iso then isoDate s else slashDate s) = Some (dateStr, r)) \<and>
         (\<exists>w s r. timeOfDay w s = Some (timeStr, r))"
proof (cases "iosRegex line")
  case (Some m)
  with assms have "formatType = Ios" "m = (dateStr, timeStr, nameGroup, contentGroup)"
    by (simp_all add: matchLine_def)
  with Some iosRegex_parts[of line dateStr timeStr nameGroup contentGroup] show ?thesis by auto
next
  case None
  show ?thesis
  proof (cases "androidRegex line")
    case (Some m)
    with None assms have "formatType = Android" "m = (dateStr, timeStr, nameGroup, contentGroup)"
      by (simp_all add: matchLine_def)
    with Some androidRegex_parts[of line dateStr timeStr nameGroup contentGroup] show ?thesis by auto
  next
    case none: None
    show ?thesis
    proof (cases "isoRegex line")
      case (Some m)
      with None none assms have "formatType = Iso" "m = (dateStr, timeStr, nameGroup, contentGroup)"
        by (simp_all add: matchLine_def)
      with Some isoRegex_parts[of line dateStr timeStr nameGroup contentGroup] show ?thesis by auto
    next
      case nn: None
      with None none assms show ?thesis by (simp add: matchLine_def)
    qed
  qed
qed

lemma expandYear_two_digits:
  "digitString c \<Longrightarrow> length c = 2 \<Longrightarrow> expandYear (numberOf c) = 2000 + numberOf c"
  using decimalValue_two_digits[of c] by (simp add: expandYear_def numberOf_def)

lemma parseTimestampFields_combine:
  assumes "parseDatePart dateStr formatType = Inr (Some y, Some mo, Some d)"
    and "parseTimePart timeStr = Inr (Some h, Some mi, Some s)"
  shows "parseTimestampFields dateStr timeStr formatType =
     Inr \<lparr>dateYear = y, dateMonth = mo, dateDay = d,
          dateHours = h, dateMinutes = mi, dateSeconds = s\<rparr>"
  by (simp add: parseTimestampFields_def assms)

lemma matchLine_fields:
  assumes "matchLine line = Some (formatType, dateStr, timeStr, nameGroup, contentGroup)"
  shows "\<exists>a b c h mi seconds ws marker.
     digitString a \<and> digitString b \<and> digitString c \<and> digitString h \<and> digitString mi \<and>
     (case seconds of None \<Rightarrow> True | Some ss \<Rightarrow> digitString ss) \<and>
     (\<forall>ch \<in> set ws. isSpace ch) \<and>
     (marker = None \<or> marker = Some CHR ''A'' \<or> marker = Some CHR ''P'') \<and>
     dateStr = (if formatType = Iso then a @ ''-'' @ b @ ''-'' @ c
                else a @ ''/'' @ b @ ''/'' @ c) \<and>
     timeStr = h @ '':'' @ mi @ secondsText seconds @ ampmText ws marker \<and>
     parseTimestampFields dateStr timeStr formatType =
       Inr \<lparr>dateYear = (if formatType = Iso then numberOf a else expandYear (numberOf c)),
            dateMonth = numberOf b - 1,
            dateDay = (if formatType = Iso then numberOf c else numberOf a),
            dateHours = twelveHour marker (numberOf h),
            dateMinutes = numberOf mi,
            dateSeconds = (case seconds of None \<Rightarrow> 0 | Some ss \<Rightarrow> numberOf ss)\<rparr> \<and>
     (formatType \<noteq> Iso \<and> length c = 2 \<longrightarrow> expandYear (numberOf c) = 2000 + numberOf c)"
proof -
  from matchLine_parts[OF assms] obtain s r w s' r' where
    date: "(if formatType = Iso then isoDate s else slashDate s) = Some (dateStr, r)" and
    time: "timeOfDay w s' = Some (timeStr, r')" by blast
  from timeOfDay_shape[OF time] obtain h mi seconds ws marker where t:
    "digitString h" "digitString mi"
    "case seconds of None \<Rightarrow> True | Some ss \<Rightarrow> digitString ss"
    "\<forall>ch \<in> set ws. isSpace ch"
    "marker = None \<or> marker = Some CHR ''A'' \<or> marker = Some CHR ''P''"
    "timeStr = h @ '':'' @ mi @ secondsText seconds @ ampmText ws marker" by blast
  have tp: "parseTimePart timeStr =
     Inr (Some (twelveHour marker (numberOf h)), Some (numberOf mi),
          Some (case seconds of None \<Rightarrow> 0 | Some ss \<Rightarrow> numberOf ss))"
    unfolding t(6) by (rule parseTimePart_shape[OF t(1-5)])
  have "\<exists>a b c. digitString a \<and> digitString b \<and> digitString c \<and>
     dateStr = (if formatType = Iso then a @ ''-'' @ b @ ''-'' @ c
                else a @ ''/'' @ b @ ''/'' @ c) \<and>
     parseDatePart dateStr formatType =
       Inr (Some (if formatType = Iso then numberOf a else expandYear (numberOf c)),
            Some (numberOf b - 1),
            Some (if formatType = Iso then numberOf c else numberOf a))"
  proof (cases "formatType = Iso")
    case True
    with date have "isoDate s = Some (dateStr, r)" by simp
    from isoDate_Some[OF this] obtain a b c where d:
      "digitString a" "digitString b" "digitString c" "dateStr = a @ ''-'' @ b @ ''-'' @ c"
      by blast
    have "parseDatePart dateStr formatType =
       Inr (Some (numberOf a), Some (numberOf b - 1), Some (numberOf c))"
      unfolding d(4) True numberOf_def by (rule parseDatePart_iso[OF d(1-3)])
    with d True show ?thesis
      by (intro exI[of _ a] exI[of _ b] exI[of _ c]) (simp only: if_True simp_thms)
  next
    case False
    with date have "slashDate s = Some (dateStr, r)" by simp
    from slashDate_Some[OF this] obtain a b c where d:
      "digitString a" "digitString b" "digitString c" "dateStr = a @ ''/'' @ b @ ''/'' @ c"
      by blast
    have "parseDatePart dateStr formatType =
       Inr (Some (expandYear (numberOf c)), Some (numberOf b - 1), Some (numberOf a))"
      unfolding d(4) numberOf_def expandYear_def
      using parseDatePart_slash[OF d(1-3) False] by (simp add: add.commute)
    with d False show ?thesis
      by (intro exI[of _ a] exI[of _ b] exI[of _ c]) (simp only: if_False simp_thms)
  qed
  then obtain a b c where d: "digitString a" "digitString b" "digitString c"
    "dateStr = (if formatType = Iso then a @ ''-'' @ b @ ''-'' @ c
                else a @ ''/'' @ b @ ''/'' @ c)"
    and dp: "parseDatePart dateStr formatType =
       Inr (Some (if formatType = Iso then numberOf a else expandYear (numberOf c)),
            Some (numberOf b - 1),
            Some (if formatType = Iso then numberOf c else numberOf a))"
    by blast
  note f = parseTimestampFields_combine[OF dp tp]
  have y: "formatType \<noteq> Iso \<and> length c = 2 \<longrightarrow> expandYear (numberOf c) = 2000 + numberOf c"
    using expandYear_two_digits[OF d(3)] by blast
  from d t f y show ?thesis by blast
qed


lemma matchLine_parseTimestamp:
  assumes "matchLine line = Some (formatType, dateStr, timeStr, nameGroup, contentGroup)"
  shows "\<exists>t. parseTimestamp dateStr timeStr formatType = Inr t"
proof -
  from matchLine_fields[OF assms] obtain f where
    "parseTimestampFields dateStr timeStr formatType = Inr f" by blast
  then show ?thesis by (simp add: parseTimestamp_def)
qed





lemma tokenize_blank: "trim raw = [] \<Longrightarrow> tokenize (raw # rest) acc cur = tokenize rest acc cur"
  by simp

lemma tokenize_continuation:
  "trim raw \<noteq> [] \<Longrightarrow> matchLine (trim raw) = None \<Longrightarrow>
   tokenize (raw # rest) acc (Some m) = tokenize rest acc (Some (appendLine m (trim raw)))"
  by (simp add: Let_def)

lemma tokenize_header:
  "matchLine (trim raw) = None \<Longrightarrow> tokenize (raw # rest) acc None = tokenize rest acc None"
  by (simp add: Let_def)

lemma tokenize_match:
  assumes "trim raw \<noteq> []"
    and "matchLine (trim raw) = Some (formatType, dateStr, timeStr, nameGroup, contentGroup)"
  shows "\<exists>m. tokenize (raw # rest) acc cur = tokenize rest (flush acc cur) (Some m)"
proof -
  from matchLine_parseTimestamp[OF assms(2)] obtain t where
    "parseTimestamp dateStr timeStr formatType = Inr t" by blast
  with assms show ?thesis by (simp add: Let_def) blast
qed


lemma tokenize_step_cases:
  obtains (blank) "trim raw = []"
  | (continuation) "trim raw \<noteq> []" "matchLine (trim raw) = None"
  | (matched) formatType dateStr timeStr nameGroup contentGroup where
      "trim raw \<noteq> []"
      "matchLine (trim raw) = Some (formatType, dateStr, timeStr, nameGroup, contentGroup)"
proof (cases "trim raw = []")
  case True
  then show ?thesis by (rule blank)
next
  case False
  show ?thesis
  proof (cases "matchLine (trim raw)")
    case None
    with False show ?thesis by (rule continuation)
  next
    case (Some p)
    obtain f d t n c where "p = (f, d, t, n, c)" by (cases p)
    with False Some show ?thesis by (intro matched) simp_all
  qed
qed

lemma tokenize_total: "\<exists>ms c. tokenize ls acc cur = Inr (ms, c)"
proof (induction ls arbitrary: acc cur)
  case Nil
  show ?case by simp
next
  case (Cons raw rest)
  show ?case
  proof (cases rule: tokenize_step_cases[of raw])
    case blank
    with Cons.IH[of acc cur] show ?thesis by (simp add: tokenize_blank)
  next
    case continuation
    show ?thesis
    proof (cases cur)
      case None
      with continuation Cons.IH[of acc None] show ?thesis by (simp add: tokenize_header)
    next
      case (Some m)
      with continuation Cons.IH[of acc "Some (appendLine m (trim raw))"] show ?thesis
        by (simp add: tokenize_continuation)
    qed
  next
    case (matched formatType dateStr timeStr nameGroup contentGroup)
    from tokenize_match[OF matched, of rest acc cur] obtain m where
      "tokenize (raw # rest) acc cur = tokenize rest (flush acc cur) (Some m)" by blast
    with Cons.IH[of "flush acc cur" "Some m"] show ?thesis by simp
  qed
qed










section \<open>Sentiment: what a long message changes\<close>

lemma getMonthKey_example:
  "getMonthKey (newDate 2024 0 1 10 0 0) = ''2024-01''
   \<and> getMonthKey (newDate 1999 11 31 23 59 59) = ''1999-12''
   \<and> getMonthKey (newDate 2024 1 29 0 0 0) = ''2024-02''
   \<and> getMonthKey (newDate 2023 2 1 0 0 0) = ''2023-03''"
  by code_simp

lemma sentimentStep_long:
  "length (content m) > MAX_LENGTH \<Longrightarrow> sentimentStep sentiment st m = st"
  by (simp add: sentimentStep_def)

lemma sentimentLoop_long:
  "foldl (sentimentStep sentiment) st (filter (\<lambda>m. length (content m) \<le> MAX_LENGTH) ms)
     = foldl (sentimentStep sentiment) st ms"
proof (induction ms arbitrary: st)
  case Nil
  show ?case by simp
next
  case (Cons m ms)
  show ?case
  proof (cases "length (content m) \<le> MAX_LENGTH")
    case True
    then show ?thesis using Cons.IH by simp
  next
    case False
    then have "sentimentStep sentiment st m = st"
      by (simp add: sentimentStep_long)
    then show ?thesis using False Cons.IH by simp
  qed
qed

lemma sentimentLoop_sorted_long:
  "foldl (sentimentStep sentiment) st
     (sortByTimestamp (filter (\<lambda>m. length (content m) \<le> MAX_LENGTH) ms))
     = foldl (sentimentStep sentiment) st (sortByTimestamp ms)"
proof -
  have "sortByTimestamp (filter (\<lambda>m. length (content m) \<le> MAX_LENGTH) ms)
          = filter (\<lambda>m. length (content m) \<le> MAX_LENGTH) (sortByTimestamp ms)"
    by (simp add: sortByTimestamp_def filter_sort)
  then show ?thesis
    by (simp add: sentimentLoop_long)
qed

text \<open>
  The counts, the monthly trend and the two top lists are those of the messages of at
  most 200 characters: a longer message reaches none of them.
\<close>

lemma sentimentOf_long_excluded:
  "positiveCount (sentimentOf sentiment ms)
     = positiveCount (sentimentOf sentiment (filter (\<lambda>m. length (content m) \<le> MAX_LENGTH) ms))
   \<and> negativeCount (sentimentOf sentiment ms)
     = negativeCount (sentimentOf sentiment (filter (\<lambda>m. length (content m) \<le> MAX_LENGTH) ms))
   \<and> neutralCount (sentimentOf sentiment ms)
     = neutralCount (sentimentOf sentiment (filter (\<lambda>m. length (content m) \<le> MAX_LENGTH) ms))
   \<and> sentimentTrend (sentimentOf sentiment ms)
     = sentimentTrend (sentimentOf sentiment (filter (\<lambda>m. length (content m) \<le> MAX_LENGTH) ms))
   \<and> topPositive (sentimentOf sentiment ms)
     = topPositive (sentimentOf sentiment (filter (\<lambda>m. length (content m) \<le> MAX_LENGTH) ms))
   \<and> topNegative (sentimentOf sentiment ms)
     = topNegative (sentimentOf sentiment (filter (\<lambda>m. length (content m) \<le> MAX_LENGTH) ms))"
  by (simp add: sentimentOf_def Let_def sentimentLoop_sorted_long)

text \<open>
  The overall score divides the total of the scored messages by the number of all the
  messages of the participant, the skipped ones included.
\<close>

lemma sentimentOf_overall:
  "overall (sentimentOf sentiment ms)
     = (if ms = [] then 0
        else totalScore (foldl (sentimentStep sentiment) initialSentimentState
               (sortByTimestamp (filter (\<lambda>m. length (content m) \<le> MAX_LENGTH) ms)))
             / of_nat (length ms))"
proof -
  have "length (sortByTimestamp ms) = length ms"
    by (simp add: sortByTimestamp_def)
  moreover from this have "(sortByTimestamp ms = []) = (ms = [])"
    by (metis length_0_conv)
  moreover have "sortByTimestamp [] = []"
    by (simp add: sortByTimestamp_def)
  ultimately show ?thesis
    by (simp add: sentimentOf_def Let_def sentimentLoop_sorted_long)
qed

text \<open>
  Claim C2 (a message of more than 200 characters is excluded from every sentiment
  aggregate, the overall average included): the code does not do this for the overall
  average. Alice's one scored message rates 0.3, and so does her overall score; with a
  message of 201 characters added, which is skipped by the loop, the overall score is
  0.15, because the divisor is the number of all her messages. The counts, the trend and
  the top lists are the same in both cases.
\<close>

theorem analyzeSentiment_long_message_dilutes_overall:
  "length (content exampleLong) > MAX_LENGTH
   \<and> overall (analyzeSentiment exampleScorer (sentimentParticipants [exampleShort]) ''Alice'')
       = 3 / 10
   \<and> overall (analyzeSentiment exampleScorer
         (sentimentParticipants [exampleShort, exampleLong]) ''Alice'') = 3 / 20
   \<and> positiveCount (analyzeSentiment exampleScorer
         (sentimentParticipants [exampleShort, exampleLong]) ''Alice'') = 1
   \<and> map period (sentimentTrend (analyzeSentiment exampleScorer
         (sentimentParticipants [exampleShort, exampleLong]) ''Alice'')) = [''2024-01'']
   \<and> map avgScore (sentimentTrend (analyzeSentiment exampleScorer
         (sentimentParticipants [exampleShort, exampleLong]) ''Alice'')) = [3 / 10]"
  by code_simp

end
